theory Spec2Isabelle
  imports Main "HOL-Library.Word"
begin

section \<open>Data model\<close>

text \<open>
  The Go structs of \<^verbatim>\<open>api/v1alpha1/configmirror_types.go\<close> and the parts of
  \<^verbatim>\<open>corev1.ConfigMap\<close> and \<^verbatim>\<open>metav1\<close> that the controller reads or writes, as records.
  A Go \<^verbatim>\<open>map[string]string\<close> is a partial function; a nil map and an empty map are both
  \<open>Map.empty\<close> (they read the same in Go and serialise the same). A pointer that may be nil
  is an \<open>option\<close>. A \<^verbatim>\<open>metav1.Time\<close> is a natural number, \<open>0\<close> the zero time.
\<close>

type_synonym time = nat

record ConfigMap =
  cm_Name :: string
  cm_Namespace :: string
  cm_UID :: string
  cm_Labels :: "string \<rightharpoonup> string"
  cm_Annotations :: "string \<rightharpoonup> string"
  cm_Data :: "string \<rightharpoonup> string"
  cm_BinaryData :: "string \<rightharpoonup> 8 word list"

record LabelSelectorRequirement =
  req_Key :: string
  req_Operator :: string
  req_Values :: "string list"

record LabelSelector =
  MatchLabels :: "(string \<times> string) list"
  MatchExpressions :: "LabelSelectorRequirement list"

record SecretReference =
  secret_Name :: string
  secret_Namespace :: string

record DatabaseConfig =
  Enabled :: bool
  SecretRef :: SecretReference

record ConfigMirrorSpec =
  SourceNamespace :: string
  TargetNamespaces :: "string list"
  Selector :: "LabelSelector option"
  Database :: "DatabaseConfig option"

datatype ConditionStatus = ConditionTrue | ConditionFalse | ConditionUnknown

record Condition =
  cond_Type :: string
  cond_Status :: ConditionStatus
  cond_ObservedGeneration :: "64 word"
  cond_LastTransitionTime :: time
  cond_Reason :: string
  cond_Message :: string

record ReplicatedConfigMap =
  rcm_Name :: string
  rcm_SourceNamespace :: string
  rcm_Targets :: "string list"
  rcm_LastSyncTime :: "time option"

record DatabaseStatus =
  Connected :: bool
  dbs_LastSyncTime :: "time option"
  dbs_Message :: string

record ConfigMirrorStatus =
  st_Conditions :: "Condition list"
  st_ReplicatedConfigMaps :: "ReplicatedConfigMap list"
  st_DatabaseStatus :: "DatabaseStatus option"
  st_ObservedGeneration :: "64 word"

record ConfigMirror =
  mirror_Name :: string
  mirror_Namespace :: string
  mirror_Generation :: "64 word"
  mirror_DeletionTimestamp :: "time option"
  mirror_Finalizers :: "string list"
  Spec :: ConfigMirrorSpec
  Status :: ConfigMirrorStatus

text \<open>A row of the table \<^verbatim>\<open>configmaps\<close> of \<^verbatim>\<open>internal/database/postgres.go\<close>
  (the surrogate id left out).\<close>

record row =
  row_name :: string
  row_namespace :: string
  row_data :: "string \<rightharpoonup> string"
  row_labels :: "string \<rightharpoonup> string"
  row_annotations :: "string \<rightharpoonup> string"
  row_configmirror_name :: string
  row_configmirror_namespace :: string
  row_created_at :: time
  row_updated_at :: time

text \<open>\<^verbatim>\<open>ctrl.Result\<close>; \<^verbatim>\<open>time.Duration\<close> counts nanoseconds.\<close>

record Result =
  RequeueAfter :: int

datatype error =
  NotFound
  | AlreadyExists
  | Conflict
  | ServerError string
  | SelectorError string
  | DatabaseError string
  | ErrNoRows

fun Error :: "error \<Rightarrow> string" where
  "Error NotFound = ''not found''"
| "Error AlreadyExists = ''already exists''"
| "Error Conflict = ''the object has been modified''"
| "Error (ServerError m) = m"
| "Error (SelectorError m) = m"
| "Error (DatabaseError m) = m"
| "Error ErrNoRows = ''no rows in result set''"

section \<open>The cluster, the database and their failures\<close>

text \<open>
  The object store and the database are external to the repository. The object store is
  an in-memory store: the ConfigMaps and the ConfigMirror resources in lists (so that a
  listing has an order), read by namespace and name; the table is a list of rows.
  \<open>calls\<close> logs every mutating request the controller sends to the object store, in order,
  whether or not it succeeds.
\<close>

datatype api_call =
  CreateConfigMap ConfigMap
  | UpdateConfigMap ConfigMap
  | DeleteConfigMap string string
  | UpdateMirror string string
  | UpdateMirrorStatus string string

record world =
  configmaps :: "ConfigMap list"
  mirrors :: "ConfigMirror list"
  rows :: "row list"
  calls :: "api_call list"

datatype verb = VGet | VList | VCreate | VUpdate | VDelete | VUpdateStatus

datatype db_verb = DbSave | DbDelete | DbPing

text \<open>
  What a pass cannot control: the clocks, the reconciler's \<^verbatim>\<open>DBClient\<close> being nil or not,
  the label syntax check of the API machinery, and the failures of the calls. A fault
  \<open>Some err\<close> makes the call return \<open>err\<close> without any effect; \<open>cm_fault v ns n\<close> is for a
  request on the ConfigMap \<open>n\<close> of namespace \<open>ns\<close> (a listing has the name \<open>[]\<close>),
  \<open>cr_fault\<close> for a request on the ConfigMirror, \<open>db_fault\<close> for a database call about
  the ConfigMap (name, namespace).
\<close>

record env =
  now :: time
  status_now :: time
  db_now :: time
  DBClient :: bool
  valid_label_key :: "string \<Rightarrow> bool"
  valid_label_value :: "string \<Rightarrow> bool"
  cm_fault :: "verb \<Rightarrow> string \<Rightarrow> string \<Rightarrow> error option"
  cr_fault :: "verb \<Rightarrow> error option"
  db_fault :: "db_verb \<Rightarrow> string \<Rightarrow> string \<Rightarrow> error option"

subsection \<open>Label selectors\<close>

text \<open>
  \<^verbatim>\<open>metav1.LabelSelectorAsSelector\<close> and \<^verbatim>\<open>labels.Requirement.Matches\<close> of the API
  machinery: a nil selector matches nothing, an empty one everything; every entry of
  \<^verbatim>\<open>matchLabels\<close> is an equality requirement; an expression has one of the four
  operators, with values for \<^verbatim>\<open>In\<close> and \<^verbatim>\<open>NotIn\<close> and none for the other two.
\<close>

datatype Operator = OpEquals | OpIn | OpNotIn | OpExists | OpDoesNotExist

record Requirement =
  r_key :: string
  r_operator :: Operator
  r_values :: "string list"

definition NewRequirement :: "env \<Rightarrow> string \<Rightarrow> Operator \<Rightarrow> string list \<Rightarrow> error + Requirement" where
  "NewRequirement e k op vals =
     (if (op = OpIn \<or> op = OpNotIn) \<and> vals = [] then
        Inl (SelectorError ''for in, notin operators, values set can not be empty'')
      else if op = OpEquals \<and> length vals \<noteq> 1 then
        Inl (SelectorError ''exact-match compatibility requires one single value'')
      else if (op = OpExists \<or> op = OpDoesNotExist) \<and> vals \<noteq> [] then
        Inl (SelectorError ''values set must be empty for exists and does not exist'')
      else if \<not> valid_label_key e k then
        Inl (SelectorError ''invalid label key'')
      else if \<not> list_all (valid_label_value e) vals then
        Inl (SelectorError ''invalid label value'')
      else Inr \<lparr>r_key = k, r_operator = op, r_values = vals\<rparr>)"

fun matchLabels_requirements :: "env \<Rightarrow> (string \<times> string) list \<Rightarrow> error + Requirement list" where
  "matchLabels_requirements e [] = Inr []"
| "matchLabels_requirements e ((k, v) # kvs) =
     (case NewRequirement e k OpEquals [v] of
        Inl err \<Rightarrow> Inl err
      | Inr r \<Rightarrow>
          (case matchLabels_requirements e kvs of
             Inl err \<Rightarrow> Inl err
           | Inr rs \<Rightarrow> Inr (r # rs)))"

definition selection_operator :: "string \<Rightarrow> error + Operator" where
  "selection_operator s =
     (if s = ''In'' then Inr OpIn
      else if s = ''NotIn'' then Inr OpNotIn
      else if s = ''Exists'' then Inr OpExists
      else if s = ''DoesNotExist'' then Inr OpDoesNotExist
      else Inl (SelectorError (s @ '' is not a valid label selector operator'')))"

fun matchExpressions_requirements ::
  "env \<Rightarrow> LabelSelectorRequirement list \<Rightarrow> error + Requirement list" where
  "matchExpressions_requirements e [] = Inr []"
| "matchExpressions_requirements e (expr # exprs) =
     (case selection_operator (req_Operator expr) of
        Inl err \<Rightarrow> Inl err
      | Inr op \<Rightarrow>
          (case NewRequirement e (req_Key expr) op (req_Values expr) of
             Inl err \<Rightarrow> Inl err
           | Inr r \<Rightarrow>
               (case matchExpressions_requirements e exprs of
                  Inl err \<Rightarrow> Inl err
                | Inr rs \<Rightarrow> Inr (r # rs))))"

definition Matches :: "Requirement \<Rightarrow> (string \<rightharpoonup> string) \<Rightarrow> bool" where
  "Matches r ls =
     (case r_operator r of
        OpEquals \<Rightarrow> (case ls (r_key r) of None \<Rightarrow> False | Some v \<Rightarrow> v \<in> set (r_values r))
      | OpIn \<Rightarrow> (case ls (r_key r) of None \<Rightarrow> False | Some v \<Rightarrow> v \<in> set (r_values r))
      | OpNotIn \<Rightarrow> (case ls (r_key r) of None \<Rightarrow> True | Some v \<Rightarrow> v \<notin> set (r_values r))
      | OpExists \<Rightarrow> ls (r_key r) \<noteq> None
      | OpDoesNotExist \<Rightarrow> ls (r_key r) = None)"

text \<open>A compiled selector is the predicate on label maps.\<close>

definition LabelSelectorAsSelector ::
  "env \<Rightarrow> LabelSelector option \<Rightarrow> error + ((string \<rightharpoonup> string) \<Rightarrow> bool)" where
  "LabelSelectorAsSelector e ps =
     (case ps of
        None \<Rightarrow> Inr (\<lambda>ls. False)
      | Some s \<Rightarrow>
          if length (MatchLabels s) + length (MatchExpressions s) = 0 then Inr (\<lambda>ls. True)
          else
            (case matchLabels_requirements e (MatchLabels s) of
               Inl err \<Rightarrow> Inl err
             | Inr rs1 \<Rightarrow>
                 (case matchExpressions_requirements e (MatchExpressions s) of
                    Inl err \<Rightarrow> Inl err
                  | Inr rs2 \<Rightarrow> Inr (\<lambda>ls. list_all (\<lambda>r. Matches r ls) (rs1 @ rs2)))))"

subsection \<open>The object store's client\<close>

definition cm_at :: "string \<Rightarrow> string \<Rightarrow> ConfigMap \<Rightarrow> bool" where
  "cm_at ns n c = (cm_Namespace c = ns \<and> cm_Name c = n)"

definition cm_lookup :: "ConfigMap list \<Rightarrow> string \<Rightarrow> string \<Rightarrow> ConfigMap option" where
  "cm_lookup s ns n = find (cm_at ns n) s"

text \<open>\<^verbatim>\<open>r.Get\<close> of a ConfigMap, by namespace and name.\<close>

definition client_Get :: "env \<Rightarrow> world \<Rightarrow> string \<Rightarrow> string \<Rightarrow> error + ConfigMap" where
  "client_Get e w ns n =
     (case cm_fault e VGet ns n of
        Some err \<Rightarrow> Inl err
      | None \<Rightarrow>
          (case cm_lookup (configmaps w) ns n of
             None \<Rightarrow> Inl NotFound
           | Some c \<Rightarrow> Inr c))"

text \<open>\<^verbatim>\<open>r.List\<close> of the ConfigMaps of a namespace whose labels satisfy a predicate.\<close>

definition client_List ::
  "env \<Rightarrow> world \<Rightarrow> string \<Rightarrow> ((string \<rightharpoonup> string) \<Rightarrow> bool) \<Rightarrow> error + ConfigMap list" where
  "client_List e w ns p =
     (case cm_fault e VList ns [] of
        Some err \<Rightarrow> Inl err
      | None \<Rightarrow> Inr (filter (\<lambda>c. cm_Namespace c = ns \<and> p (cm_Labels c)) (configmaps w)))"

definition logged :: "api_call \<Rightarrow> world \<Rightarrow> world" where
  "logged c w = w\<lparr>calls := calls w @ [c]\<rparr>"

definition client_Create :: "env \<Rightarrow> ConfigMap \<Rightarrow> world \<Rightarrow> error option \<times> world" where
  "client_Create e c w =
     (let w1 = logged (CreateConfigMap c) w in
      case cm_fault e VCreate (cm_Namespace c) (cm_Name c) of
        Some err \<Rightarrow> (Some err, w1)
      | None \<Rightarrow>
          (case cm_lookup (configmaps w1) (cm_Namespace c) (cm_Name c) of
             Some x \<Rightarrow> (Some AlreadyExists, w1)
           | None \<Rightarrow> (None, w1\<lparr>configmaps := configmaps w1 @ [c]\<rparr>)))"

definition client_Update :: "env \<Rightarrow> ConfigMap \<Rightarrow> world \<Rightarrow> error option \<times> world" where
  "client_Update e c w =
     (let w1 = logged (UpdateConfigMap c) w in
      case cm_fault e VUpdate (cm_Namespace c) (cm_Name c) of
        Some err \<Rightarrow> (Some err, w1)
      | None \<Rightarrow>
          (case cm_lookup (configmaps w1) (cm_Namespace c) (cm_Name c) of
             None \<Rightarrow> (Some NotFound, w1)
           | Some x \<Rightarrow>
               (None, w1\<lparr>configmaps :=
                  map (\<lambda>x. if cm_at (cm_Namespace c) (cm_Name c) x then c else x)
                    (configmaps w1)\<rparr>)))"

definition client_Delete :: "env \<Rightarrow> ConfigMap \<Rightarrow> world \<Rightarrow> error option \<times> world" where
  "client_Delete e c w =
     (let w1 = logged (DeleteConfigMap (cm_Namespace c) (cm_Name c)) w in
      case cm_fault e VDelete (cm_Namespace c) (cm_Name c) of
        Some err \<Rightarrow> (Some err, w1)
      | None \<Rightarrow>
          (case cm_lookup (configmaps w1) (cm_Namespace c) (cm_Name c) of
             None \<Rightarrow> (Some NotFound, w1)
           | Some x \<Rightarrow>
               (None, w1\<lparr>configmaps :=
                  filter (\<lambda>x. \<not> cm_at (cm_Namespace c) (cm_Name c) x) (configmaps w1)\<rparr>)))"

text \<open>\<^verbatim>\<open>metav1.Time.IsZero\<close> on the pointer \<^verbatim>\<open>DeletionTimestamp\<close>\<close>

definition IsZero :: "time option \<Rightarrow> bool" where
  "IsZero t = (case t of None \<Rightarrow> True | Some x \<Rightarrow> x = 0)"

definition mirror_at :: "string \<Rightarrow> string \<Rightarrow> ConfigMirror \<Rightarrow> bool" where
  "mirror_at ns n m = (mirror_Namespace m = ns \<and> mirror_Name m = n)"

definition mirror_lookup :: "ConfigMirror list \<Rightarrow> string \<Rightarrow> string \<Rightarrow> ConfigMirror option" where
  "mirror_lookup s ns n = find (mirror_at ns n) s"

text \<open>\<^verbatim>\<open>r.Get\<close> of the ConfigMirror named by the request (namespace, name).\<close>

definition mirror_Get :: "env \<Rightarrow> world \<Rightarrow> string \<times> string \<Rightarrow> error + ConfigMirror" where
  "mirror_Get e w req =
     (case cr_fault e VGet of
        Some err \<Rightarrow> Inl err
      | None \<Rightarrow>
          (case mirror_lookup (mirrors w) (fst req) (snd req) of
             None \<Rightarrow> Inl NotFound
           | Some m \<Rightarrow> Inr m))"

text \<open>
  \<^verbatim>\<open>r.Update\<close> of a ConfigMirror. The resource has a status subresource, so the stored
  status stays; a resource whose deletion was requested and whose last finalizer is gone
  is removed by the API server.
\<close>

definition mirror_Update :: "env \<Rightarrow> ConfigMirror \<Rightarrow> world \<Rightarrow> error option \<times> world" where
  "mirror_Update e m w =
     (let w1 = logged (UpdateMirror (mirror_Namespace m) (mirror_Name m)) w in
      case cr_fault e VUpdate of
        Some err \<Rightarrow> (Some err, w1)
      | None \<Rightarrow>
          (case mirror_lookup (mirrors w1) (mirror_Namespace m) (mirror_Name m) of
             None \<Rightarrow> (Some NotFound, w1)
           | Some old \<Rightarrow>
               if \<not> IsZero (mirror_DeletionTimestamp m) \<and> mirror_Finalizers m = [] then
                 (None, w1\<lparr>mirrors :=
                    filter (\<lambda>x. \<not> mirror_at (mirror_Namespace m) (mirror_Name m) x) (mirrors w1)\<rparr>)
               else
                 (None, w1\<lparr>mirrors :=
                    map (\<lambda>x. if mirror_at (mirror_Namespace m) (mirror_Name m) x
                              then m\<lparr>Status := Status x\<rparr> else x) (mirrors w1)\<rparr>)))"

text \<open>\<^verbatim>\<open>r.Status().Update\<close>: only the status of the stored resource is replaced.\<close>

definition status_Update :: "env \<Rightarrow> ConfigMirror \<Rightarrow> world \<Rightarrow> error option \<times> world" where
  "status_Update e m w =
     (let w1 = logged (UpdateMirrorStatus (mirror_Namespace m) (mirror_Name m)) w in
      case cr_fault e VUpdateStatus of
        Some err \<Rightarrow> (Some err, w1)
      | None \<Rightarrow>
          (case mirror_lookup (mirrors w1) (mirror_Namespace m) (mirror_Name m) of
             None \<Rightarrow> (Some NotFound, w1)
           | Some old \<Rightarrow>
               (None, w1\<lparr>mirrors :=
                  map (\<lambda>x. if mirror_at (mirror_Namespace m) (mirror_Name m) x
                            then x\<lparr>Status := Status m\<rparr> else x) (mirrors w1)\<rparr>)))"

subsection \<open>The database client (internal/database/postgres.go)\<close>

definition row_at :: "string \<Rightarrow> string \<Rightarrow> string \<Rightarrow> string \<Rightarrow> row \<Rightarrow> bool" where
  "row_at name namespace mirrorName mirrorNamespace r =
     (row_name r = name \<and> row_namespace r = namespace \<and>
      row_configmirror_name r = mirrorName \<and> row_configmirror_namespace r = mirrorNamespace)"

text \<open>\<^verbatim>\<open>SaveConfigMap\<close>: INSERT ... ON CONFLICT (the unique key) DO UPDATE.\<close>

definition SaveConfigMap ::
  "env \<Rightarrow> ConfigMap \<Rightarrow> string \<Rightarrow> string \<Rightarrow> world \<Rightarrow> error option \<times> world" where
  "SaveConfigMap e c mirrorName mirrorNamespace w =
     (case db_fault e DbSave (cm_Name c) (cm_Namespace c) of
        Some err \<Rightarrow> (Some (DatabaseError (''failed to save ConfigMap: '' @ Error err)), w)
      | None \<Rightarrow>
          (if list_ex (row_at (cm_Name c) (cm_Namespace c) mirrorName mirrorNamespace) (rows w) then
             (None, w\<lparr>rows :=
                map (\<lambda>r. if row_at (cm_Name c) (cm_Namespace c) mirrorName mirrorNamespace r
                          then r\<lparr>row_data := cm_Data c, row_labels := cm_Labels c,
                                 row_annotations := cm_Annotations c, row_updated_at := db_now e\<rparr>
                          else r) (rows w)\<rparr>)
           else
             (None, w\<lparr>rows := rows w @
                [\<lparr>row_name = cm_Name c, row_namespace = cm_Namespace c, row_data = cm_Data c,
                  row_labels = cm_Labels c, row_annotations = cm_Annotations c,
                  row_configmirror_name = mirrorName, row_configmirror_namespace = mirrorNamespace,
                  row_created_at = db_now e, row_updated_at = db_now e\<rparr>]\<rparr>)))"

text \<open>\<^verbatim>\<open>DeleteConfigMap\<close>: DELETE ... WHERE the key; no row affected is \<^verbatim>\<open>pgx.ErrNoRows\<close>.\<close>

definition DeleteConfigMapRow ::
  "env \<Rightarrow> string \<Rightarrow> string \<Rightarrow> string \<Rightarrow> string \<Rightarrow> world \<Rightarrow> error option \<times> world" where
  "DeleteConfigMapRow e name namespace mirrorName mirrorNamespace w =
     (case db_fault e DbDelete name namespace of
        Some err \<Rightarrow> (Some (DatabaseError (''failed to delete ConfigMap: '' @ Error err)), w)
      | None \<Rightarrow>
          (if list_ex (row_at name namespace mirrorName mirrorNamespace) (rows w) then
             (None, w\<lparr>rows := filter (\<lambda>r. \<not> row_at name namespace mirrorName mirrorNamespace r) (rows w)\<rparr>)
           else (Some ErrNoRows, w)))"

definition Ping :: "env \<Rightarrow> error option" where
  "Ping e = db_fault e DbPing [] []"

section \<open>The controller (internal/controller/configmirror_controller.go)\<close>

definition finalizerName :: string where
  "finalizerName = ''mirror.pawapay.io/finalizer''"

definition ownerLabel :: string where
  "ownerLabel = ''mirror.pawapay.io/owner''"

text \<open>Reading a Go map: a missing key reads as the empty string.\<close>

definition index :: "(string \<rightharpoonup> string) \<Rightarrow> string \<Rightarrow> string" where
  "index m k = (case m k of None \<Rightarrow> [] | Some v \<Rightarrow> v)"

text \<open>\<^verbatim>\<open>fmt.Sprintf("%s.%s", owner.Namespace, owner.Name)\<close>\<close>

definition ownerLabelValue :: "ConfigMirror \<Rightarrow> string" where
  "ownerLabelValue owner = mirror_Namespace owner @ ''.'' @ mirror_Name owner"

text \<open>
  \<^verbatim>\<open>replicateConfigMap\<close> (lines 188-218). The target built from the source has no
  annotations and no uid; \<^verbatim>\<open>existing.Labels == nil\<close> needs no case, a nil map being the
  empty map.
\<close>

definition replicateConfigMap ::
  "env \<Rightarrow> ConfigMap \<Rightarrow> string \<Rightarrow> ConfigMirror \<Rightarrow> world \<Rightarrow> error option \<times> world" where
  "replicateConfigMap e source targetNS owner w =
     (let target = \<lparr>cm_Name = cm_Name source, cm_Namespace = targetNS, cm_UID = [],
                     cm_Labels = [ownerLabel \<mapsto> ownerLabelValue owner],
                     cm_Annotations = Map.empty,
                     cm_Data = cm_Data source, cm_BinaryData = cm_BinaryData source\<rparr> in
      case client_Get e w (cm_Namespace target) (cm_Name target) of
        Inl err \<Rightarrow> if err = NotFound then client_Create e target w else (Some err, w)
      | Inr existing \<Rightarrow>
          client_Update e
            (existing\<lparr>cm_Data := cm_Data target, cm_BinaryData := cm_BinaryData target,
                      cm_Labels := (cm_Labels existing)(ownerLabel \<mapsto> index (cm_Labels target) ownerLabel)\<rparr>)
            w)"

text \<open>
  \<^verbatim>\<open>deleteReplicatedConfigMap\<close> (lines 220-238). The owner's label value is never empty,
  so \<^verbatim>\<open>configMap.Labels != nil\<close> adds nothing to the comparison of the label read.
\<close>

definition deleteReplicatedConfigMap ::
  "env \<Rightarrow> string \<Rightarrow> string \<Rightarrow> ConfigMirror \<Rightarrow> world \<Rightarrow> error option \<times> world" where
  "deleteReplicatedConfigMap e name targetNS owner w =
     (case client_Get e w targetNS name of
        Inl err \<Rightarrow> if err = NotFound then (None, w) else (Some err, w)
      | Inr configMap \<Rightarrow>
          if index (cm_Labels configMap) ownerLabel = ownerLabelValue owner
          then client_Delete e configMap w
          else (None, w))"

text \<open>\<^verbatim>\<open>cleanupConfigMaps\<close> (lines 240-260): the inner loop over the listed items, then
  the loop over the target namespaces.\<close>

fun delete_items :: "env \<Rightarrow> ConfigMap list \<Rightarrow> world \<Rightarrow> error option \<times> world" where
  "delete_items e [] w = (None, w)"
| "delete_items e (c # items) w =
     (case client_Delete e c w of
        (Some err, w1) \<Rightarrow> if err \<noteq> NotFound then (Some err, w1) else delete_items e items w1
      | (None, w1) \<Rightarrow> delete_items e items w1)"

fun cleanup_namespaces :: "env \<Rightarrow> string \<Rightarrow> string list \<Rightarrow> world \<Rightarrow> error option \<times> world" where
  "cleanup_namespaces e v [] w = (None, w)"
| "cleanup_namespaces e v (targetNS # rest) w =
     (case client_List e w targetNS (\<lambda>ls. ls ownerLabel = Some v) of
        Inl err \<Rightarrow> (Some err, w)
      | Inr items \<Rightarrow>
          (case delete_items e items w of
             (Some err, w1) \<Rightarrow> (Some err, w1)
           | (None, w1) \<Rightarrow> cleanup_namespaces e v rest w1))"

definition cleanupConfigMaps :: "env \<Rightarrow> ConfigMirror \<Rightarrow> world \<Rightarrow> error option \<times> world" where
  "cleanupConfigMaps e configMirror w =
     cleanup_namespaces e (ownerLabelValue configMirror)
       (TargetNamespaces (Spec configMirror)) w"

text \<open>
  \<^verbatim>\<open>meta.SetStatusCondition\<close> of the API machinery: the first condition of the type is
  overwritten, its transition time only when the status changes; a new type is appended.
\<close>

fun SetStatusCondition :: "Condition list \<Rightarrow> Condition \<Rightarrow> Condition list" where
  "SetStatusCondition [] new = [new]"
| "SetStatusCondition (c # cs) new =
     (if cond_Type c = cond_Type new then
        c\<lparr>cond_Status := cond_Status new,
          cond_LastTransitionTime :=
            (if cond_Status c \<noteq> cond_Status new then cond_LastTransitionTime new
             else cond_LastTransitionTime c),
          cond_Reason := cond_Reason new,
          cond_Message := cond_Message new,
          cond_ObservedGeneration := cond_ObservedGeneration new\<rparr> # cs
      else c # SetStatusCondition cs new)"

text \<open>\<^verbatim>\<open>updateStatus\<close> (lines 262-274): the error of the status write is discarded.\<close>

definition updateStatus ::
  "env \<Rightarrow> ConfigMirror \<Rightarrow> ConditionStatus \<Rightarrow> string \<Rightarrow> string \<Rightarrow> world \<Rightarrow> world" where
  "updateStatus e configMirror status reason message w =
     (let condition = \<lparr>cond_Type = ''Ready'', cond_Status = status,
                        cond_ObservedGeneration = mirror_Generation configMirror,
                        cond_LastTransitionTime = status_now e,
                        cond_Reason = reason, cond_Message = message\<rparr>;
          m = configMirror\<lparr>Status := (Status configMirror)
                \<lparr>st_Conditions := SetStatusCondition (st_Conditions (Status configMirror)) condition\<rparr>\<rparr>
      in snd (status_Update e m w))"

text \<open>\<^verbatim>\<open>r.DBClient != nil && configMirror.Spec.Database != nil && configMirror.Spec.Database.Enabled\<close>\<close>

definition database_enabled :: "env \<Rightarrow> ConfigMirror \<Rightarrow> bool" where
  "database_enabled e configMirror =
     (DBClient e \<and> (case Database (Spec configMirror) of None \<Rightarrow> False | Some d \<Rightarrow> Enabled d))"

text \<open>The loop over the target namespaces for one source object (lines 116-123).\<close>

fun replicate_targets ::
  "env \<Rightarrow> ConfigMap \<Rightarrow> ConfigMirror \<Rightarrow> string list \<Rightarrow> string list \<Rightarrow> world \<Rightarrow> string list \<times> world" where
  "replicate_targets e cm owner [] targets w = (targets, w)"
| "replicate_targets e cm owner (targetNS # rest) targets w =
     (case replicateConfigMap e cm targetNS owner w of
        (Some err, w1) \<Rightarrow> replicate_targets e cm owner rest targets w1
      | (None, w1) \<Rightarrow> replicate_targets e cm owner rest (targets @ [targetNS]) w1)"

text \<open>The loop over the listed source objects (lines 115-137).\<close>

fun replicate_all ::
  "env \<Rightarrow> ConfigMirror \<Rightarrow> ConfigMap list \<Rightarrow> ReplicatedConfigMap list \<Rightarrow> world
    \<Rightarrow> ReplicatedConfigMap list \<times> world" where
  "replicate_all e configMirror [] replicatedCMs w = (replicatedCMs, w)"
| "replicate_all e configMirror (cm # items) replicatedCMs w =
     (case replicate_targets e cm configMirror (TargetNamespaces (Spec configMirror)) [] w of
        (targets, w1) \<Rightarrow>
          replicate_all e configMirror items
            (replicatedCMs @
               [\<lparr>rcm_Name = cm_Name cm, rcm_SourceNamespace = cm_Namespace cm,
                 rcm_Targets = targets, rcm_LastSyncTime = Some (now e)\<rparr>])
            (if database_enabled e configMirror
             then snd (SaveConfigMap e cm (mirror_Name configMirror) (mirror_Namespace configMirror) w1)
             else w1))"

text \<open>The deletion of one orphaned name from every target namespace (lines 150-154).\<close>

fun delete_from_targets :: "env \<Rightarrow> string \<Rightarrow> ConfigMirror \<Rightarrow> string list \<Rightarrow> world \<Rightarrow> world" where
  "delete_from_targets e name owner [] w = w"
| "delete_from_targets e name owner (targetNS # rest) w =
     delete_from_targets e name owner rest (snd (deleteReplicatedConfigMap e name targetNS owner w))"

text \<open>The loop over the previously tracked ConfigMaps (lines 146-163); \<open>current\<close> holds the
  names of the listed source objects (the keys of \<^verbatim>\<open>currentConfigMapNames\<close>).\<close>

fun cleanup_orphans ::
  "env \<Rightarrow> ConfigMirror \<Rightarrow> string list \<Rightarrow> ReplicatedConfigMap list \<Rightarrow> world \<Rightarrow> world" where
  "cleanup_orphans e configMirror current [] w = w"
| "cleanup_orphans e configMirror current (prevCM # rest) w =
     (if rcm_Name prevCM \<in> set current then cleanup_orphans e configMirror current rest w
      else
        (let w1 = delete_from_targets e (rcm_Name prevCM) configMirror
                    (TargetNamespaces (Spec configMirror)) w
         in cleanup_orphans e configMirror current rest
              (if database_enabled e configMirror
               then snd (DeleteConfigMapRow e (rcm_Name prevCM) (rcm_SourceNamespace prevCM)
                           (mirror_Name configMirror) (mirror_Namespace configMirror) w1)
               else w1)))"

text \<open>The database status written at lines 168-181.\<close>

definition probe_database :: "env \<Rightarrow> ConfigMirror \<Rightarrow> ConfigMirror" where
  "probe_database e configMirror =
     (if database_enabled e configMirror then
        (case Ping e of
           None \<Rightarrow>
             configMirror\<lparr>Status := (Status configMirror)\<lparr>st_DatabaseStatus :=
               Some \<lparr>Connected = True, dbs_LastSyncTime = Some (now e), dbs_Message = ''Connected''\<rparr>\<rparr>\<rparr>
         | Some err \<Rightarrow>
             configMirror\<lparr>Status := (Status configMirror)\<lparr>st_DatabaseStatus :=
               Some \<lparr>Connected = False, dbs_LastSyncTime = None, dbs_Message = Error err\<rparr>\<rparr>\<rparr>)
      else configMirror)"

text \<open>\<^verbatim>\<open>Reconcile\<close> from the compilation of the selector on (lines 95-185).\<close>

definition reconcile_active :: "env \<Rightarrow> ConfigMirror \<Rightarrow> world \<Rightarrow> (Result \<times> error option) \<times> world" where
  "reconcile_active e configMirror w =
     (case LabelSelectorAsSelector e (Selector (Spec configMirror)) of
        Inl err \<Rightarrow>
          ((\<lparr>RequeueAfter = 0\<rparr>, Some err),
           updateStatus e configMirror ConditionFalse ''InvalidSelector'' (Error err) w)
      | Inr selector \<Rightarrow>
          (case client_List e w (mirror_Namespace configMirror) selector of
             Inl err \<Rightarrow>
               ((\<lparr>RequeueAfter = 0\<rparr>, Some err),
                updateStatus e configMirror ConditionFalse ''ListFailed'' (Error err) w)
           | Inr items \<Rightarrow>
               (case replicate_all e configMirror items [] w of
                  (replicatedCMs, w1) \<Rightarrow>
                    (let w2 = cleanup_orphans e configMirror (map cm_Name items)
                                (st_ReplicatedConfigMaps (Status configMirror)) w1;
                         m = configMirror\<lparr>Status := (Status configMirror)
                               \<lparr>st_ReplicatedConfigMaps := replicatedCMs,
                                st_ObservedGeneration := mirror_Generation configMirror\<rparr>\<rparr>
                     in ((\<lparr>RequeueAfter = 300000000000\<rparr>, None),
                         updateStatus e (probe_database e m) ConditionTrue ''ReconcileSuccess''
                           ''Successfully replicated ConfigMaps'' w2)))))"

definition ContainsFinalizer :: "ConfigMirror \<Rightarrow> string \<Rightarrow> bool" where
  "ContainsFinalizer obj f = (f \<in> set (mirror_Finalizers obj))"

definition AddFinalizer :: "ConfigMirror \<Rightarrow> string \<Rightarrow> ConfigMirror" where
  "AddFinalizer obj f =
     (if f \<in> set (mirror_Finalizers obj) then obj
      else obj\<lparr>mirror_Finalizers := mirror_Finalizers obj @ [f]\<rparr>)"

definition RemoveFinalizer :: "ConfigMirror \<Rightarrow> string \<Rightarrow> ConfigMirror" where
  "RemoveFinalizer obj f = obj\<lparr>mirror_Finalizers := filter (\<lambda>x. x \<noteq> f) (mirror_Finalizers obj)\<rparr>"

text \<open>\<^verbatim>\<open>Reconcile\<close> (lines 61-186); the request is (namespace, name).\<close>

definition Reconcile :: "env \<Rightarrow> string \<times> string \<Rightarrow> world \<Rightarrow> (Result \<times> error option) \<times> world" where
  "Reconcile e req w =
     (case mirror_Get e w req of
        Inl err \<Rightarrow>
          if err = NotFound then ((\<lparr>RequeueAfter = 0\<rparr>, None), w)
          else ((\<lparr>RequeueAfter = 0\<rparr>, Some err), w)
      | Inr configMirror \<Rightarrow>
          if IsZero (mirror_DeletionTimestamp configMirror) then
            (if \<not> ContainsFinalizer configMirror finalizerName then
               (case mirror_Update e (AddFinalizer configMirror finalizerName) w of
                  (Some err, w1) \<Rightarrow> ((\<lparr>RequeueAfter = 0\<rparr>, Some err), w1)
                | (None, w1) \<Rightarrow> reconcile_active e (AddFinalizer configMirror finalizerName) w1)
             else reconcile_active e configMirror w)
          else
            (if ContainsFinalizer configMirror finalizerName then
               (case cleanupConfigMaps e configMirror w of
                  (Some err, w1) \<Rightarrow> ((\<lparr>RequeueAfter = 0\<rparr>, Some err), w1)
                | (None, w1) \<Rightarrow>
                    (case mirror_Update e (RemoveFinalizer configMirror finalizerName) w1 of
                       (Some err, w2) \<Rightarrow> ((\<lparr>RequeueAfter = 0\<rparr>, Some err), w2)
                     | (None, w2) \<Rightarrow> ((\<lparr>RequeueAfter = 0\<rparr>, None), w2)))
             else ((\<lparr>RequeueAfter = 0\<rparr>, None), w)))"

section \<open>Predicates of the statements\<close>

text \<open>A logged call is the deletion of a ConfigMap in one of the namespaces \<open>ts\<close>.\<close>

definition deletes_in :: "string list \<Rightarrow> api_call \<Rightarrow> bool" where
  "deletes_in ts c = (case c of DeleteConfigMap t n \<Rightarrow> t \<in> set ts | _ \<Rightarrow> False)"

text \<open>A logged call is a write of the status subresource; their number in the log.\<close>

definition is_status_write :: "api_call \<Rightarrow> bool" where
  "is_status_write c = (case c of UpdateMirrorStatus ns n \<Rightarrow> True | _ \<Rightarrow> False)"

definition status_writes :: "world \<Rightarrow> nat" where
  "status_writes w = length (filter is_status_write (calls w))"

text \<open>The environment \<open>e\<close> with the fault \<open>x\<close> for the status writes.\<close>

definition with_status_fault :: "env \<Rightarrow> error option \<Rightarrow> env" where
  "with_status_fault e x = e\<lparr>cr_fault := (cr_fault e)(VUpdateStatus := x)\<rparr>"

text \<open>Two worlds hold the same objects and the same log of requests (their tables may differ).\<close>

definition same_objects :: "world \<Rightarrow> world \<Rightarrow> bool" where
  "same_objects w w' = (configmaps w = configmaps w' \<and> mirrors w = mirrors w' \<and> calls w = calls w')"

text \<open>A ConfigMirror with \<^verbatim>\<open>status.databaseStatus\<close> cleared.\<close>

definition sans_database_status :: "ConfigMirror \<Rightarrow> ConfigMirror" where
  "sans_database_status m = m\<lparr>Status := (Status m)\<lparr>st_DatabaseStatus := None\<rparr>\<rparr>"

text \<open>The ConfigMap carries the marker of \<open>owner\<close> (the test of line 233).\<close>

definition owned_by :: "ConfigMirror \<Rightarrow> ConfigMap \<Rightarrow> bool" where
  "owned_by owner c = (index (cm_Labels c) ownerLabel = ownerLabelValue owner)"

text \<open>The store holds no ConfigMap \<open>n\<close> in the namespace \<open>t\<close> that carries the owner's marker.\<close>

definition no_owned_copy :: "ConfigMirror \<Rightarrow> world \<Rightarrow> string \<Rightarrow> string \<Rightarrow> bool" where
  "no_owned_copy owner w t n =
     (case cm_lookup (configmaps w) t n of None \<Rightarrow> True | Some c \<Rightarrow> \<not> owned_by owner c)"

text \<open>The table holds no row of the owner for the ConfigMap (name, namespace).\<close>

definition no_record :: "world \<Rightarrow> string \<Rightarrow> string \<Rightarrow> ConfigMirror \<Rightarrow> bool" where
  "no_record w name namespace owner =
     (\<not> list_ex (row_at name namespace (mirror_Name owner) (mirror_Namespace owner)) (rows w))"

text \<open>The key of a ConfigMap in the object store.\<close>

definition cm_key :: "ConfigMap \<Rightarrow> string \<times> string" where
  "cm_key c = (cm_Namespace c, cm_Name c)"

text \<open>The status entry of a source object that lists, in the order of the spec, the target
  namespaces to which \<^verbatim>\<open>replicateConfigMap\<close> succeeds from the world \<open>w\<close>.\<close>

definition recorded_entry :: "env \<Rightarrow> ConfigMirror \<Rightarrow> world \<Rightarrow> ConfigMap \<Rightarrow> ReplicatedConfigMap" where
  "recorded_entry e owner w cm =
     \<lparr>rcm_Name = cm_Name cm, rcm_SourceNamespace = cm_Namespace cm,
      rcm_Targets = filter (\<lambda>t. fst (replicateConfigMap e cm t owner w) = None)
                      (TargetNamespaces (Spec owner)),
      rcm_LastSyncTime = Some (now e)\<rparr>"

text \<open>The target namespace \<open>t\<close> holds a ConfigMap with the name of \<open>cm\<close>, its data and the
  marker \<open>v\<close>.\<close>

definition synced :: "string \<Rightarrow> world \<Rightarrow> ConfigMap \<Rightarrow> string \<Rightarrow> bool" where
  "synced v w cm t =
     (case cm_lookup (configmaps w) t (cm_Name cm) of
        None \<Rightarrow> False
      | Some x \<Rightarrow> cm_Data x = cm_Data cm \<and> cm_BinaryData x = cm_BinaryData cm
                  \<and> cm_Labels x ownerLabel = Some v)"

text \<open>A logged request creates or updates, in the namespace \<open>t\<close>, a ConfigMap with the name
  of \<open>cm\<close>, its data and the marker \<open>v\<close>.\<close>

definition writes_copy :: "string \<Rightarrow> ConfigMap \<Rightarrow> string \<Rightarrow> api_call \<Rightarrow> bool" where
  "writes_copy v cm t c =
     (case c of
        CreateConfigMap x \<Rightarrow> cm_at t (cm_Name cm) x \<and> cm_Data x = cm_Data cm
          \<and> cm_BinaryData x = cm_BinaryData cm \<and> cm_Labels x ownerLabel = Some v
      | UpdateConfigMap x \<Rightarrow> cm_at t (cm_Name cm) x \<and> cm_Data x = cm_Data cm
          \<and> cm_BinaryData x = cm_BinaryData cm \<and> cm_Labels x ownerLabel = Some v
      | _ \<Rightarrow> False)"

text \<open>The source object \<open>cm\<close> was copied to the namespace \<open>t\<close>: the store holds the copy and
  the log holds the request that wrote it.\<close>

definition copied :: "string \<Rightarrow> world \<Rightarrow> ConfigMap \<Rightarrow> string \<Rightarrow> bool" where
  "copied v w cm t = (synced v w cm t \<and> list_ex (writes_copy v cm t) (calls w))"

text \<open>Every request to the object store and to the database succeeds.\<close>

definition no_faults :: "env \<Rightarrow> bool" where
  "no_faults e = (cm_fault e = (\<lambda>v ns n. None) \<and> cr_fault e = (\<lambda>v. None)
      \<and> db_fault e = (\<lambda>v n ns. None))"

text \<open>A row with the column \<^verbatim>\<open>updated_at\<close> cleared, and a ConfigMirror whose status has
  its timestamps cleared (the transition time of the conditions, \<^verbatim>\<open>lastSyncTime\<close> of the
  entries and of the database status).\<close>

definition row_sans_updated :: "row \<Rightarrow> row" where
  "row_sans_updated r = r\<lparr>row_updated_at := 0\<rparr>"

definition status_sans_times :: "ConfigMirrorStatus \<Rightarrow> ConfigMirrorStatus" where
  "status_sans_times s = s
     \<lparr>st_Conditions := map (\<lambda>c. c\<lparr>cond_LastTransitionTime := 0\<rparr>) (st_Conditions s),
      st_ReplicatedConfigMaps := map (\<lambda>r. r\<lparr>rcm_LastSyncTime := None\<rparr>) (st_ReplicatedConfigMaps s),
      st_DatabaseStatus := map_option (\<lambda>d. d\<lparr>dbs_LastSyncTime := None\<rparr>) (st_DatabaseStatus s)\<rparr>"

definition mirror_sans_times :: "ConfigMirror \<Rightarrow> ConfigMirror" where
  "mirror_sans_times m = m\<lparr>Status := status_sans_times (Status m)\<rparr>"

section \<open>Invariants of a pass\<close>

text \<open>The status entry of a source object replicated to every target namespace.\<close>

definition full_entry :: "env \<Rightarrow> ConfigMirror \<Rightarrow> ConfigMap \<Rightarrow> ReplicatedConfigMap" where
  "full_entry e owner cm =
     \<lparr>rcm_Name = cm_Name cm, rcm_SourceNamespace = cm_Namespace cm,
      rcm_Targets = TargetNamespaces (Spec owner), rcm_LastSyncTime = Some (now e)\<rparr>"

text \<open>The table holds a row of the owner (\<open>mn\<close>, \<open>mns\<close>) for the ConfigMap, and every such row
  holds its data, labels and annotations.\<close>

definition row_synced :: "string \<Rightarrow> string \<Rightarrow> row list \<Rightarrow> ConfigMap \<Rightarrow> bool" where
  "row_synced mn mns rs cm =
     (list_ex (row_at (cm_Name cm) (cm_Namespace cm) mn mns) rs
      \<and> list_all (\<lambda>r. row_at (cm_Name cm) (cm_Namespace cm) mn mns r \<longrightarrow>
            row_data r = cm_Data cm \<and> row_labels r = cm_Labels cm
            \<and> row_annotations r = cm_Annotations cm) rs)"

text \<open>The status that \<^verbatim>\<open>updateStatus\<close> sends, the ConfigMirror whose status lists the entries
  \<open>R\<close>, and the stored ConfigMirror after a status write.\<close>

definition status_to_write ::
  "env \<Rightarrow> ConfigMirror \<Rightarrow> ConditionStatus \<Rightarrow> string \<Rightarrow> string \<Rightarrow> ConfigMirrorStatus" where
  "status_to_write e m s r msg =
     (Status m)\<lparr>st_Conditions := SetStatusCondition (st_Conditions (Status m))
        \<lparr>cond_Type = ''Ready'', cond_Status = s, cond_ObservedGeneration = mirror_Generation m,
         cond_LastTransitionTime = status_now e, cond_Reason = r, cond_Message = msg\<rparr>\<rparr>"

definition tracked :: "env \<Rightarrow> ConfigMirror \<Rightarrow> ReplicatedConfigMap list \<Rightarrow> ConfigMirror" where
  "tracked e m R = probe_database e
     (m\<lparr>Status := (Status m)\<lparr>st_ReplicatedConfigMaps := R,
          st_ObservedGeneration := mirror_Generation m\<rparr>\<rparr>)"

definition put_status :: "string \<Rightarrow> string \<Rightarrow> ConfigMirrorStatus \<Rightarrow> ConfigMirror \<Rightarrow> ConfigMirror" where
  "put_status ns n S x = (if mirror_at ns n x then x\<lparr>Status := S\<rparr> else x)"

section \<open>Concrete clusters\<close>

text \<open>
  The example of the README: the ConfigMirror \<^verbatim>\<open>app-config-mirror\<close> with the selector
  \<^verbatim>\<open>app=myapp\<close>, the targets \<^verbatim>\<open>dev\<close> and \<^verbatim>\<open>prod\<close> and
  \<^verbatim>\<open>sourceNamespace: app-source\<close>. \<open>env_ok\<close> is an environment in which no call fails.
\<close>

definition env_ok :: env where
  "env_ok = \<lparr>now = 100, status_now = 101, db_now = 102, DBClient = True,
     valid_label_key = (\<lambda>k. True), valid_label_value = (\<lambda>v. True),
     cm_fault = (\<lambda>v ns n. None), cr_fault = (\<lambda>v. None), db_fault = (\<lambda>v n ns. None)\<rparr>"

definition app_selector :: LabelSelector where
  "app_selector = \<lparr>MatchLabels = [(''app'', ''myapp'')], MatchExpressions = []\<rparr>"

definition empty_status :: ConfigMirrorStatus where
  "empty_status = \<lparr>st_Conditions = [], st_ReplicatedConfigMaps = [], st_DatabaseStatus = None,
     st_ObservedGeneration = 0\<rparr>"

text \<open>The ConfigMirror of the README, created in the namespace \<open>ns\<close>.\<close>

definition mirror_in :: "string \<Rightarrow> ConfigMirror" where
  "mirror_in ns = \<lparr>mirror_Name = ''app-config-mirror'', mirror_Namespace = ns, mirror_Generation = 1,
     mirror_DeletionTimestamp = None, mirror_Finalizers = [finalizerName],
     Spec = \<lparr>SourceNamespace = ''app-source'', TargetNamespaces = [''dev'', ''prod''],
       Selector = Some app_selector,
       Database = Some \<lparr>Enabled = True, SecretRef = \<lparr>secret_Name = ''rds-credentials'',
         secret_Namespace = ''configmirror-system''\<rparr>\<rparr>\<rparr>,
     Status = empty_status\<rparr>"

definition config_map :: "string \<Rightarrow> string \<Rightarrow> (string \<rightharpoonup> string) \<Rightarrow> string \<Rightarrow> ConfigMap" where
  "config_map ns n ls v = \<lparr>cm_Name = n, cm_Namespace = ns, cm_UID = ns @ ''/'' @ n, cm_Labels = ls,
     cm_Annotations = Map.empty, cm_Data = [''config.yaml'' \<mapsto> v], cm_BinaryData = Map.empty\<rparr>"

definition source_cm :: ConfigMap where
  "source_cm = config_map ''app-source'' ''app-config'' [''app'' \<mapsto> ''myapp''] ''key: value''"

text \<open>The ConfigMirror lives in \<^verbatim>\<open>ops\<close>, as in the README; \<^verbatim>\<open>ops\<close> holds a ConfigMap
  of its own that carries the selected label.\<close>

definition world_ops :: world where
  "world_ops = \<lparr>configmaps =
       [source_cm, config_map ''ops'' ''ops-settings'' [''app'' \<mapsto> ''myapp''] ''ops: 1''],
     mirrors = [mirror_in ''ops''], rows = [], calls = []\<rparr>"

text \<open>A ConfigMap of another team in \<^verbatim>\<open>dev\<close> and one owned by another ConfigMirror in
  \<^verbatim>\<open>prod\<close>, both named like the source object.\<close>

definition foreign_cm :: ConfigMap where
  "foreign_cm = (config_map ''dev'' ''app-config'' [''team'' \<mapsto> ''payments''] ''theirs'')
     \<lparr>cm_Annotations := [''note'' \<mapsto> ''hand-written'']\<rparr>"

definition other_owner_cm :: ConfigMap where
  "other_owner_cm = config_map ''prod'' ''app-config'' [ownerLabel \<mapsto> ''other-ns.other-mirror''] ''other''"

definition world_collision :: world where
  "world_collision = \<lparr>configmaps = [source_cm, foreign_cm, other_owner_cm],
     mirrors = [mirror_in ''app-source''], rows = [], calls = []\<rparr>"

text \<open>A derived copy that carries the marker of \<^verbatim>\<open>app-config-mirror\<close> of
  \<^verbatim>\<open>app-source\<close>.\<close>

definition derived_cm :: "string \<Rightarrow> string \<Rightarrow> string \<Rightarrow> ConfigMap" where
  "derived_cm ns n v = config_map ns n [ownerLabel \<mapsto> ''app-source.app-config-mirror''] v"

text \<open>The ConfigMirror is being deleted; the copies of \<^verbatim>\<open>app-config\<close> exist and the table
  holds its record.\<close>

definition world_terminating :: world where
  "world_terminating = \<lparr>configmaps =
        [source_cm, derived_cm ''dev'' ''app-config'' ''key: value'',
         derived_cm ''prod'' ''app-config'' ''key: value''],
     mirrors = [(mirror_in ''app-source'')\<lparr>mirror_DeletionTimestamp := Some 50\<rparr>],
     rows = [\<lparr>row_name = ''app-config'', row_namespace = ''app-source'',
              row_data = [''config.yaml'' \<mapsto> ''key: value''], row_labels = [''app'' \<mapsto> ''myapp''],
              row_annotations = Map.empty, row_configmirror_name = ''app-config-mirror'',
              row_configmirror_namespace = ''app-source'', row_created_at = 10, row_updated_at = 10\<rparr>],
     calls = []\<rparr>"

text \<open>\<^verbatim>\<open>prod\<close> was removed from the targets after \<^verbatim>\<open>old-config\<close> had been copied to
  \<^verbatim>\<open>dev\<close> and \<^verbatim>\<open>prod\<close>; the source \<^verbatim>\<open>old-config\<close> is gone.\<close>

definition mirror_dev_only :: ConfigMirror where
  "mirror_dev_only = (mirror_in ''app-source'')
     \<lparr>Spec := (Spec (mirror_in ''app-source''))\<lparr>TargetNamespaces := [''dev'']\<rparr>,
      Status := empty_status\<lparr>st_ReplicatedConfigMaps :=
        [\<lparr>rcm_Name = ''old-config'', rcm_SourceNamespace = ''app-source'',
          rcm_Targets = [''dev'', ''prod''], rcm_LastSyncTime = Some 90\<rparr>]\<rparr>\<rparr>"

definition world_shrunk :: world where
  "world_shrunk = \<lparr>configmaps =
        [derived_cm ''dev'' ''old-config'' ''old'', derived_cm ''prod'' ''old-config'' ''old''],
     mirrors = [mirror_dev_only], rows = [], calls = []\<rparr>"

text \<open>Every status write meets a conflict; the ConfigMirror and one source object.\<close>

definition env_conflict :: env where
  "env_conflict = with_status_fault env_ok (Some Conflict)"

definition world_plain :: world where
  "world_plain = \<lparr>configmaps = [source_cm], mirrors = [mirror_in ''app-source''], rows = [], calls = []\<rparr>"

text \<open>Every database call fails.\<close>

definition database_down :: "db_verb \<Rightarrow> string \<Rightarrow> string \<Rightarrow> error option" where
  "database_down v n ns = Some (ServerError ''connection refused'')"

text \<open>The status still tracks \<^verbatim>\<open>old-config\<close>, whose source no longer exists; its copies and
  its record do.\<close>

definition old_entry :: ReplicatedConfigMap where
  "old_entry = \<lparr>rcm_Name = ''old-config'', rcm_SourceNamespace = ''app-source'',
     rcm_Targets = [''dev'', ''prod''], rcm_LastSyncTime = Some 90\<rparr>"

definition mirror_tracking_old :: ConfigMirror where
  "mirror_tracking_old = (mirror_in ''app-source'')
     \<lparr>Status := empty_status\<lparr>st_ReplicatedConfigMaps := [old_entry]\<rparr>\<rparr>"

definition world_orphan :: world where
  "world_orphan = \<lparr>configmaps =
        [source_cm, derived_cm ''dev'' ''old-config'' ''old'', derived_cm ''prod'' ''old-config'' ''old''],
     mirrors = [mirror_tracking_old],
     rows = [\<lparr>row_name = ''old-config'', row_namespace = ''app-source'',
              row_data = [''config.yaml'' \<mapsto> ''old''], row_labels = [''app'' \<mapsto> ''myapp''],
              row_annotations = Map.empty, row_configmirror_name = ''app-config-mirror'',
              row_configmirror_namespace = ''app-source'', row_created_at = 10, row_updated_at = 10\<rparr>],
     calls = []\<rparr>"

text \<open>The selector \<^verbatim>\<open>app=myapp\<close>, compiled.\<close>

definition app_predicate :: "(string \<rightharpoonup> string) \<Rightarrow> bool" where
  "app_predicate ls =
     list_all (\<lambda>r. Matches r ls) [\<lparr>r_key = ''app'', r_operator = OpEquals, r_values = [''myapp'']\<rparr>]"

text \<open>Every request on a ConfigMap of the namespace \<open>t\<close> fails.\<close>

definition namespace_down :: "string \<Rightarrow> verb \<Rightarrow> string \<Rightarrow> string \<Rightarrow> error option" where
  "namespace_down t v ns n = (if ns = t then Some (ServerError ''forbidden'') else None)"

definition env_staging_down :: env where
  "env_staging_down = env_ok\<lparr>cm_fault := namespace_down ''staging''\<rparr>"

text \<open>A ConfigMirror that was just created, without the finalizer, with the target namespaces
  \<^verbatim>\<open>dev\<close>, \<^verbatim>\<open>staging\<close> and \<^verbatim>\<open>prod\<close>; no copy exists yet.\<close>

definition mirror_new :: ConfigMirror where
  "mirror_new = (mirror_in ''app-source'')
     \<lparr>mirror_Finalizers := [],
      Spec := (Spec (mirror_in ''app-source''))\<lparr>TargetNamespaces := [''dev'', ''staging'', ''prod'']\<rparr>\<rparr>"

definition world_new :: world where
  "world_new = \<lparr>configmaps = [source_cm], mirrors = [mirror_new], rows = [], calls = []\<rparr>"

text \<open>A ConfigMirror of \<^verbatim>\<open>app-source\<close> whose only target namespace is its own, selecting the
  ConfigMaps that carry no ownership marker; the cluster holds \<^verbatim>\<open>app-config\<close>.\<close>

definition self_selector :: LabelSelector where
  "self_selector = \<lparr>MatchLabels = [], MatchExpressions =
     [\<lparr>req_Key = ownerLabel, req_Operator = ''DoesNotExist'', req_Values = []\<rparr>]\<rparr>"

definition mirror_self :: ConfigMirror where
  "mirror_self = \<lparr>mirror_Name = ''app-config-mirror'', mirror_Namespace = ''app-source'',
     mirror_Generation = 1, mirror_DeletionTimestamp = None, mirror_Finalizers = [finalizerName],
     Spec = \<lparr>SourceNamespace = ''app-source'', TargetNamespaces = [''app-source''],
       Selector = Some self_selector, Database = None\<rparr>,
     Status = empty_status\<rparr>"

definition world_self :: world where
  "world_self = \<lparr>configmaps = [source_cm], mirrors = [mirror_self], rows = [], calls = []\<rparr>"

section \<open>Lemmas about the stores\<close>

lemmas run_defs = Reconcile_def mirror_Get_def mirror_lookup_def mirror_at_def mirror_Update_def
  IsZero_def ContainsFinalizer_def AddFinalizer_def RemoveFinalizer_def finalizerName_def
  reconcile_active_def LabelSelectorAsSelector_def
  NewRequirement_def selection_operator_def Matches_def client_List_def replicateConfigMap_def
  client_Get_def client_Create_def client_Update_def client_Delete_def cm_lookup_def cm_at_def logged_def
  ownerLabel_def ownerLabelValue_def index_def database_enabled_def probe_database_def updateStatus_def
  status_Update_def deleteReplicatedConfigMap_def cleanupConfigMaps_def SaveConfigMap_def
  DeleteConfigMapRow_def row_at_def Ping_def Let_def

lemmas scenario_defs = env_ok_def app_selector_def empty_status_def mirror_in_def config_map_def
  source_cm_def foreign_cm_def other_owner_cm_def

lemma cm_lookup_Some_at: "cm_lookup s ns n = Some c \<Longrightarrow> cm_Namespace c = ns \<and> cm_Name c = n"
  by (auto simp: cm_lookup_def cm_at_def find_Some_iff)

lemma cm_lookup_Some_mem: "cm_lookup s ns n = Some c \<Longrightarrow> c \<in> set s"
  by (auto simp: cm_lookup_def find_Some_iff)

lemma client_Get_Inr: "client_Get e w ns n = Inr c \<Longrightarrow> cm_lookup (configmaps w) ns n = Some c"
  by (auto simp: client_Get_def split: option.splits)

lemma find_filter_other: "(\<And>x. P x \<Longrightarrow> Q x) \<Longrightarrow> find P (filter Q xs) = find P xs"
  by (induction xs) auto

lemma find_filter_same: "find P (filter (\<lambda>x. \<not> P x) xs) = None"
  by (induction xs) auto

lemma find_map_other:
  "(\<And>x. P x \<Longrightarrow> f x = x) \<Longrightarrow> (\<And>x. \<not> P x \<Longrightarrow> \<not> P (f x)) \<Longrightarrow> find P (map f xs) = find P xs"
  by (induction xs) auto

lemma find_map_same:
  "P c \<Longrightarrow> find P xs = Some x \<Longrightarrow> find P (map (\<lambda>x. if P x then c else x) xs) = Some c"
  by (induction xs) (auto split: if_splits)

lemma cm_lookup_delete_same: "cm_lookup (filter (\<lambda>x. \<not> cm_at ns n x) s) ns n = None"
  by (simp add: cm_lookup_def find_filter_same)

lemma cm_lookup_delete_other:
  "(ns', n') \<noteq> (ns, n) \<Longrightarrow>
   cm_lookup (filter (\<lambda>x. \<not> cm_at ns n x) s) ns' n' = cm_lookup s ns' n'"
  unfolding cm_lookup_def by (rule find_filter_other) (auto simp: cm_at_def)

lemma cm_lookup_update_same:
  "cm_Namespace c = ns \<Longrightarrow> cm_Name c = n \<Longrightarrow> cm_lookup s ns n = Some x \<Longrightarrow>
   cm_lookup (map (\<lambda>x. if cm_at ns n x then c else x) s) ns n = Some c"
  unfolding cm_lookup_def by (rule find_map_same) (auto simp: cm_at_def)

lemma cm_lookup_update_other:
  "cm_Namespace c = ns \<Longrightarrow> cm_Name c = n \<Longrightarrow> (ns', n') \<noteq> (ns, n) \<Longrightarrow>
   cm_lookup (map (\<lambda>x. if cm_at ns n x then c else x) s) ns' n' = cm_lookup s ns' n'"
  unfolding cm_lookup_def by (rule find_map_other) (auto simp: cm_at_def)

lemma cm_lookup_append:
  "cm_lookup (s @ [c]) ns n =
     (case cm_lookup s ns n of Some x \<Rightarrow> Some x | None \<Rightarrow> if cm_at ns n c then Some c else None)"
  by (induction s) (auto simp: cm_lookup_def)

subsection \<open>What a deletion leaves alone\<close>

lemma client_Delete_frame:
  "cm_Namespace c \<noteq> t \<Longrightarrow>
   filter (\<lambda>x. cm_Namespace x = t) (configmaps (snd (client_Delete e c w))) =
   filter (\<lambda>x. cm_Namespace x = t) (configmaps w)"
  by (auto simp: client_Delete_def logged_def Let_def cm_at_def split: option.splits intro: filter_cong)

lemma client_Delete_rest:
  "rows (snd (client_Delete e c w)) = rows w"
  "mirrors (snd (client_Delete e c w)) = mirrors w"
  "calls (snd (client_Delete e c w)) = calls w @ [DeleteConfigMap (cm_Namespace c) (cm_Name c)]"
  by (auto simp: client_Delete_def logged_def Let_def split: option.splits)

lemma deleteReplicated_frame:
  "t \<noteq> targetNS \<Longrightarrow>
   filter (\<lambda>x. cm_Namespace x = t) (configmaps (snd (deleteReplicatedConfigMap e name targetNS owner w))) =
   filter (\<lambda>x. cm_Namespace x = t) (configmaps w)"
  by (auto simp: deleteReplicatedConfigMap_def client_Delete_frame
      dest!: client_Get_Inr cm_lookup_Some_at split: sum.splits)

lemma deleteReplicated_rest:
  "rows (snd (deleteReplicatedConfigMap e name targetNS owner w)) = rows w"
  "mirrors (snd (deleteReplicatedConfigMap e name targetNS owner w)) = mirrors w"
  by (auto simp: deleteReplicatedConfigMap_def client_Delete_rest split: sum.splits)

lemma deleteReplicated_calls:
  "\<exists>new. calls (snd (deleteReplicatedConfigMap e name targetNS owner w)) = calls w @ new
     \<and> list_all (deletes_in [targetNS]) new"
  by (auto simp: deleteReplicatedConfigMap_def client_Delete_rest deletes_in_def
      dest!: client_Get_Inr cm_lookup_Some_at split: sum.splits)

lemma deletes_in_mono:
  "set ts \<subseteq> set ts' \<Longrightarrow> list_all (deletes_in ts) xs \<Longrightarrow> list_all (deletes_in ts') xs"
  by (induction xs) (auto simp: deletes_in_def split: api_call.splits)

lemma delete_from_targets_frame:
  "t \<notin> set ts \<Longrightarrow>
   filter (\<lambda>x. cm_Namespace x = t) (configmaps (delete_from_targets e name owner ts w)) =
   filter (\<lambda>x. cm_Namespace x = t) (configmaps w)"
  by (induction ts arbitrary: w) (auto simp: deleteReplicated_frame)

lemma delete_from_targets_rest:
  "rows (delete_from_targets e name owner ts w) = rows w"
  "mirrors (delete_from_targets e name owner ts w) = mirrors w"
  by (induction ts arbitrary: w) (auto simp: deleteReplicated_rest)

lemma delete_from_targets_calls:
  "\<exists>new. calls (delete_from_targets e name owner ts w) = calls w @ new \<and> list_all (deletes_in ts) new"
proof (induction ts arbitrary: w)
  case Nil
  then show ?case by simp
next
  case (Cons t ts)
  obtain new1 where n1: "calls (snd (deleteReplicatedConfigMap e name t owner w)) = calls w @ new1"
      "list_all (deletes_in [t]) new1"
    using deleteReplicated_calls by blast
  obtain new2 where n2: "calls (delete_from_targets e name owner ts (snd (deleteReplicatedConfigMap e name t owner w)))
       = calls (snd (deleteReplicatedConfigMap e name t owner w)) @ new2"
      "list_all (deletes_in ts) new2"
    using Cons.IH by blast
  have "list_all (deletes_in (t # ts)) new1" "list_all (deletes_in (t # ts)) new2"
    using n1(2) n2(2) by (auto elim!: deletes_in_mono [rotated])
  with n1 n2 show ?case
    by (intro exI [of _ "new1 @ new2"]) simp
qed

lemma DeleteConfigMapRow_frame:
  "configmaps (snd (DeleteConfigMapRow e n ns mn mns w)) = configmaps w"
  "mirrors (snd (DeleteConfigMapRow e n ns mn mns w)) = mirrors w"
  "calls (snd (DeleteConfigMapRow e n ns mn mns w)) = calls w"
  by (auto simp: DeleteConfigMapRow_def split: option.splits)

subsection \<open>What does not depend on the faults of the ConfigMirror requests\<close>

lemmas case_congs = option.case_cong sum.case_cong prod.case_cong if_cong

lemma NewRequirement_cr [simp]: "NewRequirement (e\<lparr>cr_fault := x\<rparr>) = NewRequirement e"
  by (simp add: fun_eq_iff NewRequirement_def)

lemma matchLabels_requirements_cr [simp]:
  "matchLabels_requirements (e\<lparr>cr_fault := x\<rparr>) kvs = matchLabels_requirements e kvs"
  by (induction kvs) (auto split: sum.splits)

lemma matchExpressions_requirements_cr [simp]:
  "matchExpressions_requirements (e\<lparr>cr_fault := x\<rparr>) exprs = matchExpressions_requirements e exprs"
  by (induction exprs) (auto split: sum.splits)

lemma LabelSelectorAsSelector_cr [simp]:
  "LabelSelectorAsSelector (e\<lparr>cr_fault := x\<rparr>) = LabelSelectorAsSelector e"
  by (simp add: fun_eq_iff LabelSelectorAsSelector_def cong: case_congs)

lemma client_cr [simp]:
  "client_Get (e\<lparr>cr_fault := x\<rparr>) = client_Get e"
  "client_List (e\<lparr>cr_fault := x\<rparr>) = client_List e"
  "client_Create (e\<lparr>cr_fault := x\<rparr>) = client_Create e"
  "client_Update (e\<lparr>cr_fault := x\<rparr>) = client_Update e"
  "client_Delete (e\<lparr>cr_fault := x\<rparr>) = client_Delete e"
  by (simp_all add: fun_eq_iff client_Get_def client_List_def client_Create_def client_Update_def
      client_Delete_def cong: case_congs)

lemma db_cr [simp]:
  "SaveConfigMap (e\<lparr>cr_fault := x\<rparr>) = SaveConfigMap e"
  "DeleteConfigMapRow (e\<lparr>cr_fault := x\<rparr>) = DeleteConfigMapRow e"
  "database_enabled (e\<lparr>cr_fault := x\<rparr>) = database_enabled e"
  "probe_database (e\<lparr>cr_fault := x\<rparr>) = probe_database e"
  by (simp_all add: fun_eq_iff SaveConfigMap_def DeleteConfigMapRow_def database_enabled_def
      probe_database_def Ping_def cong: case_congs)

lemma replicateConfigMap_cr [simp]: "replicateConfigMap (e\<lparr>cr_fault := x\<rparr>) = replicateConfigMap e"
  by (simp add: fun_eq_iff replicateConfigMap_def cong: case_congs)

lemma deleteReplicatedConfigMap_cr [simp]:
  "deleteReplicatedConfigMap (e\<lparr>cr_fault := x\<rparr>) = deleteReplicatedConfigMap e"
  by (simp add: fun_eq_iff deleteReplicatedConfigMap_def cong: case_congs)

lemma replicate_targets_cr [simp]:
  "replicate_targets (e\<lparr>cr_fault := x\<rparr>) cm owner ts acc w = replicate_targets e cm owner ts acc w"
  by (induction ts arbitrary: acc w) (auto split: prod.splits option.splits)

lemma replicate_all_cr [simp]:
  "replicate_all (e\<lparr>cr_fault := x\<rparr>) m items acc w = replicate_all e m items acc w"
  by (induction items arbitrary: acc w) (auto split: prod.splits)

lemma delete_from_targets_cr [simp]:
  "delete_from_targets (e\<lparr>cr_fault := x\<rparr>) n owner ts w = delete_from_targets e n owner ts w"
  by (induction ts arbitrary: w) auto

lemma cleanup_orphans_cr [simp]:
  "cleanup_orphans (e\<lparr>cr_fault := x\<rparr>) m current prev w = cleanup_orphans e m current prev w"
  by (induction prev arbitrary: w) (auto simp: Let_def)

lemma delete_items_cr [simp]: "delete_items (e\<lparr>cr_fault := x\<rparr>) items w = delete_items e items w"
  by (induction items arbitrary: w) (auto split: prod.splits option.splits)

lemma cleanup_namespaces_cr [simp]:
  "cleanup_namespaces (e\<lparr>cr_fault := x\<rparr>) v ts w = cleanup_namespaces e v ts w"
  by (induction ts arbitrary: w) (auto split: prod.splits option.splits sum.splits)

lemma cleanupConfigMaps_cr [simp]: "cleanupConfigMaps (e\<lparr>cr_fault := x\<rparr>) = cleanupConfigMaps e"
  by (simp add: fun_eq_iff cleanupConfigMaps_def)

lemma mirror_ops_status_fault [simp]:
  "mirror_Get (with_status_fault e x) = mirror_Get e"
  "mirror_Update (with_status_fault e x) = mirror_Update e"
  by (simp_all add: fun_eq_iff mirror_Get_def mirror_Update_def with_status_fault_def cong: case_congs)

lemma updateStatus_frame:
  "configmaps (updateStatus e m s r msg w) = configmaps w"
  "rows (updateStatus e m s r msg w) = rows w"
  "calls (updateStatus e m s r msg w) = calls w @ [UpdateMirrorStatus (mirror_Namespace m) (mirror_Name m)]"
  by (simp_all add: updateStatus_def status_Update_def logged_def Let_def split: option.splits)

lemma reconcile_active_status_fault:
  "fst (reconcile_active (with_status_fault e x) m w) = fst (reconcile_active (with_status_fault e y) m w)
   \<and> configmaps (snd (reconcile_active (with_status_fault e x) m w))
       = configmaps (snd (reconcile_active (with_status_fault e y) m w))
   \<and> rows (snd (reconcile_active (with_status_fault e x) m w))
       = rows (snd (reconcile_active (with_status_fault e y) m w))
   \<and> calls (snd (reconcile_active (with_status_fault e x) m w))
       = calls (snd (reconcile_active (with_status_fault e y) m w))"
  by (simp add: reconcile_active_def with_status_fault_def updateStatus_frame Let_def
      split: sum.splits prod.splits)


subsection \<open>What the calls leave alone\<close>

lemma client_Create_rest:
  "rows (snd (client_Create e c w)) = rows w"
  "mirrors (snd (client_Create e c w)) = mirrors w"
  "calls (snd (client_Create e c w)) = calls w @ [CreateConfigMap c]"
  by (auto simp: case_prod_beta client_Create_def logged_def Let_def split: option.splits)

lemma client_Update_rest:
  "rows (snd (client_Update e c w)) = rows w"
  "mirrors (snd (client_Update e c w)) = mirrors w"
  "calls (snd (client_Update e c w)) = calls w @ [UpdateConfigMap c]"
  by (auto simp: case_prod_beta client_Update_def logged_def Let_def split: option.splits)

lemma replicateConfigMap_rest:
  "rows (snd (replicateConfigMap e cm t owner w)) = rows w"
  "mirrors (snd (replicateConfigMap e cm t owner w)) = mirrors w"
  by (auto simp: case_prod_beta replicateConfigMap_def client_Create_rest client_Update_rest Let_def split: sum.splits)

lemma SaveConfigMap_frame:
  "configmaps (snd (SaveConfigMap e c mn mns w)) = configmaps w"
  "mirrors (snd (SaveConfigMap e c mn mns w)) = mirrors w"
  "calls (snd (SaveConfigMap e c mn mns w)) = calls w"
  by (auto simp: case_prod_beta SaveConfigMap_def split: option.splits)

lemma replicate_targets_mirrors:
  "mirrors (snd (replicate_targets e cm owner ts acc w)) = mirrors w"
  by (induction ts arbitrary: acc w) (auto simp: case_prod_beta replicateConfigMap_rest split: option.splits)

lemma replicate_all_mirrors:
  "mirrors (snd (replicate_all e m items acc w)) = mirrors w"
  by (induction items arbitrary: acc w)
     (auto simp: case_prod_beta replicate_targets_mirrors SaveConfigMap_frame)

lemma delete_items_mirrors: "mirrors (snd (delete_items e items w)) = mirrors w"
  by (induction items arbitrary: w) (auto simp: case_prod_beta client_Delete_rest split: option.splits)

lemma cleanup_namespaces_mirrors: "mirrors (snd (cleanup_namespaces e v ts w)) = mirrors w"
  by (induction ts arbitrary: w)
     (auto simp: case_prod_beta delete_items_mirrors split: option.splits sum.splits)

lemma cleanup_orphans_mirrors: "mirrors (cleanup_orphans e m current prev w) = mirrors w"
  by (induction prev arbitrary: w)
     (auto simp: case_prod_beta Let_def delete_from_targets_rest DeleteConfigMapRow_frame)

subsection \<open>Counting the status writes\<close>

lemma status_writes_logged:
  "status_writes (logged c w) = status_writes w + (if is_status_write c then 1 else 0)"
  by (simp add: status_writes_def logged_def)

lemma status_writes_calls: "calls w' = calls w \<Longrightarrow> status_writes w' = status_writes w"
  by (simp add: status_writes_def)

lemma status_writes_client:
  "status_writes (snd (client_Create e c w)) = status_writes w"
  "status_writes (snd (client_Update e c w)) = status_writes w"
  "status_writes (snd (client_Delete e c w)) = status_writes w"
  by (simp_all add: status_writes_def client_Create_rest client_Update_rest client_Delete_rest
      is_status_write_def)

lemma status_writes_replicateConfigMap:
  "status_writes (snd (replicateConfigMap e cm t owner w)) = status_writes w"
  by (auto simp: case_prod_beta replicateConfigMap_def status_writes_client Let_def split: sum.splits)

lemma status_writes_replicate_targets:
  "status_writes (snd (replicate_targets e cm owner ts acc w)) = status_writes w"
  by (induction ts arbitrary: acc w)
     (auto simp: case_prod_beta status_writes_replicateConfigMap split: option.splits)

lemma status_writes_replicate_all:
  "status_writes (snd (replicate_all e m items acc w)) = status_writes w"
  by (induction items arbitrary: acc w)
     (auto simp: case_prod_beta status_writes_replicate_targets status_writes_calls [OF SaveConfigMap_frame(3)]
)

lemma status_writes_deleteReplicated:
  "status_writes (snd (deleteReplicatedConfigMap e n t owner w)) = status_writes w"
  by (auto simp: case_prod_beta deleteReplicatedConfigMap_def status_writes_client split: sum.splits)

lemma status_writes_delete_from_targets:
  "status_writes (delete_from_targets e n owner ts w) = status_writes w"
  by (induction ts arbitrary: w) (auto simp: case_prod_beta status_writes_deleteReplicated)

lemma status_writes_cleanup_orphans:
  "status_writes (cleanup_orphans e m current prev w) = status_writes w"
  by (induction prev arbitrary: w)
     (auto simp: case_prod_beta Let_def status_writes_delete_from_targets
        status_writes_calls [OF DeleteConfigMapRow_frame(3)])

lemma status_writes_delete_items: "status_writes (snd (delete_items e items w)) = status_writes w"
  by (induction items arbitrary: w) (auto simp: case_prod_beta status_writes_client split: option.splits)

lemma status_writes_cleanup_namespaces:
  "status_writes (snd (cleanup_namespaces e v ts w)) = status_writes w"
  by (induction ts arbitrary: w)
     (auto simp: case_prod_beta status_writes_delete_items split: option.splits sum.splits)

lemma status_writes_mirror_Update: "status_writes (snd (mirror_Update e m w)) = status_writes w"
  by (auto simp: case_prod_beta mirror_Update_def status_writes_def logged_def Let_def is_status_write_def
      split: option.splits)

lemma status_writes_updateStatus:
  "status_writes (updateStatus e m s r msg w) = Suc (status_writes w)"
  by (simp add: status_writes_def updateStatus_frame is_status_write_def)

lemma status_writes_reconcile_active:
  "status_writes (snd (reconcile_active e m w)) = Suc (status_writes w)"
  by (auto simp: case_prod_beta reconcile_active_def Let_def status_writes_updateStatus status_writes_cleanup_orphans
      status_writes_replicate_all
      split: sum.splits)


lemma Reconcile_cases:
  obtains (no_op) r where "Reconcile e req w = (r, w)"
  | (add_failed) m err where "mirror_Get e w req = Inr m"
      "Reconcile e req w =
         ((\<lparr>RequeueAfter = 0\<rparr>, Some err), snd (mirror_Update e (AddFinalizer m finalizerName) w))"
  | (added) m where "mirror_Get e w req = Inr m" "IsZero (mirror_DeletionTimestamp m)"
      "fst (mirror_Update e (AddFinalizer m finalizerName) w) = None"
      "Reconcile e req w =
         reconcile_active e (AddFinalizer m finalizerName)
           (snd (mirror_Update e (AddFinalizer m finalizerName) w))"
  | (active) m where "mirror_Get e w req = Inr m" "IsZero (mirror_DeletionTimestamp m)"
      "ContainsFinalizer m finalizerName"
      "Reconcile e req w = reconcile_active e m w"
  | (cleanup_failed) m err where "mirror_Get e w req = Inr m"
      "Reconcile e req w = ((\<lparr>RequeueAfter = 0\<rparr>, Some err), snd (cleanupConfigMaps e m w))"
  | (terminated) m r where "mirror_Get e w req = Inr m"
      "fst (cleanupConfigMaps e m w) = None"
      "Reconcile e req w =
         (r, snd (mirror_Update e (RemoveFinalizer m finalizerName) (snd (cleanupConfigMaps e m w))))"
proof (cases "mirror_Get e w req")
  case (Inl err)
  then have "Reconcile e req w = (fst (Reconcile e req w), w)"
    by (simp add: Reconcile_def)
  then show ?thesis by (rule no_op)
next
  case (Inr m)
  show ?thesis
  proof (cases "IsZero (mirror_DeletionTimestamp m)")
    case True
    show ?thesis
    proof (cases "ContainsFinalizer m finalizerName")
      case True
      with Inr \<open>IsZero (mirror_DeletionTimestamp m)\<close> show ?thesis
        by (intro active [of m]) (simp_all add: Reconcile_def)
    next
      case False
      show ?thesis
      proof (cases "fst (mirror_Update e (AddFinalizer m finalizerName) w)")
        case None
        with Inr False \<open>IsZero (mirror_DeletionTimestamp m)\<close> show ?thesis
          by (intro added [of m]) (simp_all add: Reconcile_def case_prod_beta)
      next
        case (Some err)
        with Inr False \<open>IsZero (mirror_DeletionTimestamp m)\<close> show ?thesis
          by (intro add_failed [of m err]) (simp_all add: Reconcile_def case_prod_beta)
      qed
    qed
  next
    case False
    show ?thesis
    proof (cases "ContainsFinalizer m finalizerName")
      case nofin: False
      with Inr False have "Reconcile e req w = (fst (Reconcile e req w), w)"
        by (simp add: Reconcile_def)
      then show ?thesis by (rule no_op)
    next
      case True
      show ?thesis
      proof (cases "fst (cleanupConfigMaps e m w)")
        case None
        with Inr True False have "Reconcile e req w =
           (fst (Reconcile e req w),
            snd (mirror_Update e (RemoveFinalizer m finalizerName) (snd (cleanupConfigMaps e m w))))"
          by (simp add: Reconcile_def case_prod_beta split: option.splits)
        with Inr None show ?thesis by (intro terminated [of m])
      next
        case (Some err)
        with Inr True False show ?thesis
          by (intro cleanup_failed [of m err]) (simp_all add: Reconcile_def case_prod_beta)
      qed
    qed
  qed
qed

lemma status_writes_Reconcile: "status_writes (snd (Reconcile e req w)) \<le> Suc (status_writes w)"
  by (cases e req w rule: Reconcile_cases)
     (simp_all add: status_writes_reconcile_active status_writes_mirror_Update
        status_writes_cleanup_namespaces cleanupConfigMaps_def)

subsection \<open>The stored statuses\<close>

lemma find_map_pres: "(\<And>x. P (f x) = P x) \<Longrightarrow> find P (map f xs) = map_option f (find P xs)"
  by (induction xs) auto

lemma mirror_Update_statuses:
  assumes "mirror_lookup (mirrors (snd (mirror_Update e m w))) ns n = Some m'"
  shows "\<exists>m0. mirror_lookup (mirrors w) ns n = Some m0 \<and> Status m' = Status m0"
proof -
  let ?f = "\<lambda>x. if mirror_at (mirror_Namespace m) (mirror_Name m) x then m\<lparr>Status := Status x\<rparr> else x"
  have pres: "\<And>x. mirror_at ns n (?f x) = mirror_at ns n x"
    by (auto simp: mirror_at_def)
  have upd: "mirror_lookup (map ?f (mirrors w)) ns n = map_option ?f (mirror_lookup (mirrors w) ns n)"
    unfolding mirror_lookup_def by (rule find_map_pres) (rule pres)
  have del: "mirror_lookup (filter (\<lambda>x. \<not> mirror_at (mirror_Namespace m) (mirror_Name m) x) (mirrors w)) ns n
      = (if (ns, n) = (mirror_Namespace m, mirror_Name m) then None else mirror_lookup (mirrors w) ns n)"
  proof (cases "(ns, n) = (mirror_Namespace m, mirror_Name m)")
    case True
    then show ?thesis by (simp add: mirror_lookup_def find_filter_same)
  next
    case False
    then have "find (mirror_at ns n) (filter (\<lambda>x. \<not> mirror_at (mirror_Namespace m) (mirror_Name m) x) (mirrors w))
        = find (mirror_at ns n) (mirrors w)"
      by (intro find_filter_other) (auto simp: mirror_at_def)
    with False show ?thesis by (auto simp: mirror_lookup_def)
  qed
  from assms show ?thesis
    by (auto simp: mirror_Update_def logged_def Let_def upd del split: option.splits if_splits)
qed

lemma updateStatus_conflict_mirrors:
  "cr_fault e VUpdateStatus = Some err \<Longrightarrow> mirrors (updateStatus e m s r msg w) = mirrors w"
  by (simp add: updateStatus_def status_Update_def logged_def Let_def)

lemma reconcile_active_conflict_mirrors:
  "cr_fault e VUpdateStatus = Some err \<Longrightarrow> mirrors (snd (reconcile_active e m w)) = mirrors w"
  by (auto simp: reconcile_active_def case_prod_beta Let_def updateStatus_conflict_mirrors
      cleanup_orphans_mirrors replicate_all_mirrors split: sum.splits)

lemma Reconcile_conflict_statuses:
  assumes "cr_fault e VUpdateStatus = Some err"
    and "mirror_lookup (mirrors (snd (Reconcile e req w))) ns n = Some m'"
  shows "\<exists>m0. mirror_lookup (mirrors w) ns n = Some m0 \<and> Status m' = Status m0"
proof -
  have "mirrors (snd (Reconcile e req w)) = mirrors w
    \<or> (\<exists>m. mirrors (snd (Reconcile e req w)) = mirrors (snd (mirror_Update e m w)))"
  proof (cases e req w rule: Reconcile_cases)
    case (terminated m r)
    have "mirrors (snd (mirror_Update e (RemoveFinalizer m finalizerName) (snd (cleanupConfigMaps e m w))))
        = mirrors (snd (mirror_Update e (RemoveFinalizer m finalizerName) w))"
      by (simp add: mirror_Update_def logged_def Let_def cleanupConfigMaps_def
          cleanup_namespaces_mirrors split: option.splits)
    with terminated show ?thesis by auto
  qed (use assms(1) in \<open>auto simp: reconcile_active_conflict_mirrors cleanupConfigMaps_def
        cleanup_namespaces_mirrors\<close>)
  with assms(2) show ?thesis
    by (auto dest: mirror_Update_statuses)
qed

lemma Reconcile_status_fault:
  "fst (Reconcile (with_status_fault e x) req w) = fst (Reconcile (with_status_fault e y) req w)
   \<and> configmaps (snd (Reconcile (with_status_fault e x) req w))
       = configmaps (snd (Reconcile (with_status_fault e y) req w))
   \<and> rows (snd (Reconcile (with_status_fault e x) req w))
       = rows (snd (Reconcile (with_status_fault e y) req w))
   \<and> calls (snd (Reconcile (with_status_fault e x) req w))
       = calls (snd (Reconcile (with_status_fault e y) req w))"
proof -
  have ca: "cleanupConfigMaps (with_status_fault e x) = cleanupConfigMaps e" for x
    by (simp add: with_status_fault_def)
  have ra: "fst (reconcile_active (with_status_fault e x) m w') = fst (reconcile_active (with_status_fault e y) m w')"
    "configmaps (snd (reconcile_active (with_status_fault e x) m w'))
       = configmaps (snd (reconcile_active (with_status_fault e y) m w'))"
    "rows (snd (reconcile_active (with_status_fault e x) m w'))
       = rows (snd (reconcile_active (with_status_fault e y) m w'))"
    "calls (snd (reconcile_active (with_status_fault e x) m w'))
       = calls (snd (reconcile_active (with_status_fault e y) m w'))" for m w'
    using reconcile_active_status_fault [of e x m w' y] by simp_all
  show ?thesis
    by (simp add: Reconcile_def ca ra case_prod_beta split: sum.splits option.splits)
qed

subsection \<open>What does not depend on the faults of the database\<close>

lemma NewRequirement_db [simp]: "NewRequirement (e\<lparr>db_fault := x\<rparr>) = NewRequirement e"
  by (simp add: fun_eq_iff NewRequirement_def)

lemma matchLabels_requirements_db [simp]:
  "matchLabels_requirements (e\<lparr>db_fault := x\<rparr>) kvs = matchLabels_requirements e kvs"
  by (induction kvs) (auto split: sum.splits)

lemma matchExpressions_requirements_db [simp]:
  "matchExpressions_requirements (e\<lparr>db_fault := x\<rparr>) exprs = matchExpressions_requirements e exprs"
  by (induction exprs) (auto split: sum.splits)

lemma LabelSelectorAsSelector_db [simp]:
  "LabelSelectorAsSelector (e\<lparr>db_fault := x\<rparr>) = LabelSelectorAsSelector e"
  by (simp add: fun_eq_iff LabelSelectorAsSelector_def cong: case_congs)

lemma client_db [simp]:
  "client_Get (e\<lparr>db_fault := x\<rparr>) = client_Get e"
  "client_List (e\<lparr>db_fault := x\<rparr>) = client_List e"
  "client_Create (e\<lparr>db_fault := x\<rparr>) = client_Create e"
  "client_Update (e\<lparr>db_fault := x\<rparr>) = client_Update e"
  "client_Delete (e\<lparr>db_fault := x\<rparr>) = client_Delete e"
  "mirror_Get (e\<lparr>db_fault := x\<rparr>) = mirror_Get e"
  "mirror_Update (e\<lparr>db_fault := x\<rparr>) = mirror_Update e"
  "status_Update (e\<lparr>db_fault := x\<rparr>) = status_Update e"
  "database_enabled (e\<lparr>db_fault := x\<rparr>) = database_enabled e"
  by (simp_all add: fun_eq_iff client_Get_def client_List_def client_Create_def client_Update_def
      client_Delete_def mirror_Get_def mirror_Update_def status_Update_def database_enabled_def
      cong: case_congs)

lemma replicateConfigMap_db [simp]: "replicateConfigMap (e\<lparr>db_fault := x\<rparr>) = replicateConfigMap e"
  by (simp add: fun_eq_iff replicateConfigMap_def cong: case_congs)

lemma deleteReplicatedConfigMap_db [simp]:
  "deleteReplicatedConfigMap (e\<lparr>db_fault := x\<rparr>) = deleteReplicatedConfigMap e"
  by (simp add: fun_eq_iff deleteReplicatedConfigMap_def cong: case_congs)

lemma replicate_targets_db [simp]:
  "replicate_targets (e\<lparr>db_fault := x\<rparr>) cm owner ts acc w = replicate_targets e cm owner ts acc w"
  by (induction ts arbitrary: acc w) (auto split: prod.splits option.splits)

lemma delete_from_targets_db [simp]:
  "delete_from_targets (e\<lparr>db_fault := x\<rparr>) n owner ts w = delete_from_targets e n owner ts w"
  by (induction ts arbitrary: w) auto

lemma delete_items_db [simp]: "delete_items (e\<lparr>db_fault := x\<rparr>) items w = delete_items e items w"
  by (induction items arbitrary: w) (auto split: prod.splits option.splits)

lemma cleanup_namespaces_db [simp]:
  "cleanup_namespaces (e\<lparr>db_fault := x\<rparr>) v ts w = cleanup_namespaces e v ts w"
  by (induction ts arbitrary: w) (auto split: prod.splits option.splits sum.splits)

lemma cleanupConfigMaps_db [simp]: "cleanupConfigMaps (e\<lparr>db_fault := x\<rparr>) = cleanupConfigMaps e"
  by (simp add: fun_eq_iff cleanupConfigMaps_def)

subsection \<open>Two runs on worlds with the same object store\<close>

lemma same_objects_refl [simp]: "same_objects w w"
  by (simp add: same_objects_def)

lemma client_Get_same: "same_objects w w' \<Longrightarrow> client_Get e w = client_Get e w'"
  by (simp add: fun_eq_iff client_Get_def same_objects_def cong: case_congs)

lemma client_List_same: "same_objects w w' \<Longrightarrow> client_List e w = client_List e w'"
  by (simp add: fun_eq_iff client_List_def same_objects_def cong: case_congs)

lemma client_writes_same:
  assumes "same_objects w w'"
  shows "fst (client_Create e c w) = fst (client_Create e c w')
      \<and> same_objects (snd (client_Create e c w)) (snd (client_Create e c w'))"
    and "fst (client_Update e c w) = fst (client_Update e c w')
      \<and> same_objects (snd (client_Update e c w)) (snd (client_Update e c w'))"
    and "fst (client_Delete e c w) = fst (client_Delete e c w')
      \<and> same_objects (snd (client_Delete e c w)) (snd (client_Delete e c w'))"
  using assms
  by (auto simp: client_Create_def client_Update_def client_Delete_def logged_def Let_def
      same_objects_def split: option.splits)

lemma replicateConfigMap_same:
  assumes "same_objects w w'"
  shows "fst (replicateConfigMap e cm t owner w) = fst (replicateConfigMap e cm t owner w')
      \<and> same_objects (snd (replicateConfigMap e cm t owner w)) (snd (replicateConfigMap e cm t owner w'))"
  using assms client_writes_same [OF assms] client_Get_same [OF assms, of e]
  by (auto simp: replicateConfigMap_def Let_def split: sum.splits)

lemma deleteReplicated_same:
  assumes "same_objects w w'"
  shows "same_objects (snd (deleteReplicatedConfigMap e n t owner w))
           (snd (deleteReplicatedConfigMap e n t owner w'))"
  using assms client_writes_same [OF assms] client_Get_same [OF assms, of e]
  by (auto simp: deleteReplicatedConfigMap_def split: sum.splits)

lemma replicate_targets_same:
  "same_objects w w' \<Longrightarrow>
   fst (replicate_targets e cm owner ts acc w) = fst (replicate_targets e cm owner ts acc w')
   \<and> same_objects (snd (replicate_targets e cm owner ts acc w)) (snd (replicate_targets e cm owner ts acc w'))"
proof (induction ts arbitrary: acc w w')
  case Nil
  then show ?case by simp
next
  case (Cons t ts)
  from replicateConfigMap_same [OF Cons.prems, of e cm t owner]
  have r: "fst (replicateConfigMap e cm t owner w) = fst (replicateConfigMap e cm t owner w')"
    and s: "same_objects (snd (replicateConfigMap e cm t owner w)) (snd (replicateConfigMap e cm t owner w'))"
    by simp_all
  show ?case
    using Cons.IH [OF s] r
    by (simp add: case_prod_beta split: option.splits)
qed

lemma SaveConfigMap_same:
  "same_objects w w' \<Longrightarrow>
   same_objects (snd (SaveConfigMap e c mn mns w)) (snd (SaveConfigMap e' c' mn' mns' w'))"
  by (simp add: same_objects_def SaveConfigMap_frame)

lemma DeleteConfigMapRow_same:
  "same_objects w w' \<Longrightarrow>
   same_objects (snd (DeleteConfigMapRow e n ns mn mns w)) (snd (DeleteConfigMapRow e' n' ns' mn' mns' w'))"
  by (simp add: same_objects_def DeleteConfigMapRow_frame)

lemma replicate_all_db:
  "same_objects w w' \<Longrightarrow>
   fst (replicate_all (e\<lparr>db_fault := f\<rparr>) m items acc w) = fst (replicate_all e m items acc w')
   \<and> same_objects (snd (replicate_all (e\<lparr>db_fault := f\<rparr>) m items acc w)) (snd (replicate_all e m items acc w'))"
proof (induction items arbitrary: acc w w')
  case Nil
  then show ?case by simp
next
  case (Cons cm items)
  let ?ts = "TargetNamespaces (Spec m)"
  from replicate_targets_same [OF Cons.prems, of e cm m ?ts "[]"]
  have r: "fst (replicate_targets e cm m ?ts [] w) = fst (replicate_targets e cm m ?ts [] w')"
    and s: "same_objects (snd (replicate_targets e cm m ?ts [] w)) (snd (replicate_targets e cm m ?ts [] w'))"
    by simp_all
  have s': "same_objects
      (if database_enabled e m
       then snd (SaveConfigMap (e\<lparr>db_fault := f\<rparr>) cm (mirror_Name m) (mirror_Namespace m)
                 (snd (replicate_targets e cm m ?ts [] w)))
       else snd (replicate_targets e cm m ?ts [] w))
      (if database_enabled e m
       then snd (SaveConfigMap e cm (mirror_Name m) (mirror_Namespace m)
                 (snd (replicate_targets e cm m ?ts [] w')))
       else snd (replicate_targets e cm m ?ts [] w'))"
    using s by (simp add: SaveConfigMap_same)
  show ?case
    using Cons.IH [OF s'] r
    by (simp add: case_prod_beta)
qed

lemma delete_from_targets_same:
  "same_objects w w' \<Longrightarrow>
   same_objects (delete_from_targets e n owner ts w) (delete_from_targets e n owner ts w')"
  by (induction ts arbitrary: w w') (auto simp: deleteReplicated_same)

lemma cleanup_orphans_db:
  "same_objects w w' \<Longrightarrow>
   same_objects (cleanup_orphans (e\<lparr>db_fault := f\<rparr>) m current prev w) (cleanup_orphans e m current prev w')"
proof (induction prev arbitrary: w w')
  case Nil
  then show ?case by simp
next
  case (Cons p prev)
  let ?ts = "TargetNamespaces (Spec m)"
  have s: "same_objects (delete_from_targets e (rcm_Name p) m ?ts w) (delete_from_targets e (rcm_Name p) m ?ts w')"
    using Cons.prems by (rule delete_from_targets_same)
  show ?case
    using Cons.IH [OF Cons.prems] Cons.IH [OF s]
      Cons.IH [OF DeleteConfigMapRow_same [OF s]]
    by (simp add: Let_def)
qed


subsection \<open>Statuses apart from the database status\<close>

lemma sans_database_status_eq_iff:
  "sans_database_status m1 = sans_database_status m2 \<longleftrightarrow>
     mirror_Name m1 = mirror_Name m2 \<and> mirror_Namespace m1 = mirror_Namespace m2
     \<and> mirror_Generation m1 = mirror_Generation m2
     \<and> mirror_DeletionTimestamp m1 = mirror_DeletionTimestamp m2
     \<and> mirror_Finalizers m1 = mirror_Finalizers m2 \<and> Spec m1 = Spec m2
     \<and> st_Conditions (Status m1) = st_Conditions (Status m2)
     \<and> st_ReplicatedConfigMaps (Status m1) = st_ReplicatedConfigMaps (Status m2)
     \<and> st_ObservedGeneration (Status m1) = st_ObservedGeneration (Status m2)"
  by (cases m1; cases m2; cases "Status m1"; cases "Status m2")
     (auto simp: sans_database_status_def)

lemma probe_database_sans: "sans_database_status (probe_database e m) = sans_database_status m"
  by (simp add: probe_database_def sans_database_status_def split: option.splits)

lemma updateStatus_db:
  assumes w: "same_objects w w'" and m: "sans_database_status m1 = sans_database_status m2"
  shows "configmaps (updateStatus (e\<lparr>db_fault := f\<rparr>) m1 s r msg w) = configmaps (updateStatus e m2 s r msg w')
    \<and> calls (updateStatus (e\<lparr>db_fault := f\<rparr>) m1 s r msg w) = calls (updateStatus e m2 s r msg w')
    \<and> map sans_database_status (mirrors (updateStatus (e\<lparr>db_fault := f\<rparr>) m1 s r msg w))
        = map sans_database_status (mirrors (updateStatus e m2 s r msg w'))"
proof -
  from m have f: "mirror_Name m1 = mirror_Name m2" "mirror_Namespace m1 = mirror_Namespace m2"
    "mirror_Generation m1 = mirror_Generation m2"
    "st_Conditions (Status m1) = st_Conditions (Status m2)"
    "st_ReplicatedConfigMaps (Status m1) = st_ReplicatedConfigMaps (Status m2)"
    "st_ObservedGeneration (Status m1) = st_ObservedGeneration (Status m2)"
    by (simp_all add: sans_database_status_eq_iff)
  from w have o: "configmaps w = configmaps w'" "mirrors w = mirrors w'" "calls w = calls w'"
    by (simp_all add: same_objects_def)
  show ?thesis
    by (auto simp: updateStatus_def status_Update_def logged_def Let_def f o
        sans_database_status_eq_iff split: option.splits)
qed

lemma reconcile_active_db:
  "fst (reconcile_active (e\<lparr>db_fault := f\<rparr>) m w) = fst (reconcile_active e m w)
   \<and> configmaps (snd (reconcile_active (e\<lparr>db_fault := f\<rparr>) m w)) = configmaps (snd (reconcile_active e m w))
   \<and> calls (snd (reconcile_active (e\<lparr>db_fault := f\<rparr>) m w)) = calls (snd (reconcile_active e m w))
   \<and> map sans_database_status (mirrors (snd (reconcile_active (e\<lparr>db_fault := f\<rparr>) m w)))
       = map sans_database_status (mirrors (snd (reconcile_active e m w)))"
proof (cases "LabelSelectorAsSelector e (Selector (Spec m))")
  case (Inl err)
  with updateStatus_db [where w = w and w' = w and ?m1.0 = m and ?m2.0 = m and e = e and f = f,
      OF same_objects_refl refl]
  show ?thesis by (simp add: reconcile_active_def)
next
  case (Inr p)
  show ?thesis
  proof (cases "client_List e w (mirror_Namespace m) p")
    case (Inl err)
    with Inr updateStatus_db [where w = w and w' = w and ?m1.0 = m and ?m2.0 = m and e = e and f = f,
        OF same_objects_refl refl]
    show ?thesis by (simp add: reconcile_active_def)
  next
    case (Inr items)
    let ?e = "e\<lparr>db_fault := f\<rparr>"
    from replicate_all_db [where w = w and w' = w and e = e and f = f and m = m and items = items
        and acc = "[]", OF same_objects_refl]
    have r: "fst (replicate_all ?e m items [] w) = fst (replicate_all e m items [] w)"
      and s: "same_objects (snd (replicate_all ?e m items [] w)) (snd (replicate_all e m items [] w))"
      by simp_all
    let ?R = "fst (replicate_all e m items [] w)"
    let ?m = "m\<lparr>Status := (Status m)\<lparr>st_ReplicatedConfigMaps := ?R,
                 st_ObservedGeneration := mirror_Generation m\<rparr>\<rparr>"
    have s2: "same_objects
        (cleanup_orphans ?e m (map cm_Name items) (st_ReplicatedConfigMaps (Status m))
           (snd (replicate_all ?e m items [] w)))
        (cleanup_orphans e m (map cm_Name items) (st_ReplicatedConfigMaps (Status m))
           (snd (replicate_all e m items [] w)))"
      using s by (rule cleanup_orphans_db)
    have p: "sans_database_status (probe_database ?e ?m) = sans_database_status (probe_database e ?m)"
      by (simp add: probe_database_sans)
    from updateStatus_db [OF s2 p, where s = ConditionTrue]
    show ?thesis
      using \<open>LabelSelectorAsSelector e (Selector (Spec m)) = Inr p\<close> Inr r
      by (simp add: reconcile_active_def case_prod_beta Let_def)
  qed
qed

subsection \<open>What the cleanup of orphans removes\<close>

lemma client_Delete_lookup:
  "cm_lookup (configmaps (snd (client_Delete e c w))) t n = cm_lookup (configmaps w) t n
   \<or> cm_lookup (configmaps (snd (client_Delete e c w))) t n = None"
proof (cases "(t, n) = (cm_Namespace c, cm_Name c)")
  case True
  then show ?thesis
    by (auto simp: client_Delete_def logged_def Let_def cm_lookup_delete_same split: option.splits)
next
  case False
  then show ?thesis
    by (auto simp: client_Delete_def logged_def Let_def cm_lookup_delete_other split: option.splits)
qed

lemma client_Delete_no_owned_copy:
  "no_owned_copy owner w t n \<Longrightarrow> no_owned_copy owner (snd (client_Delete e c w)) t n"
  using client_Delete_lookup [of e c w t n] by (auto simp: no_owned_copy_def)

lemma deleteReplicated_no_owned_copy:
  "no_owned_copy owner w t n \<Longrightarrow>
   no_owned_copy owner (snd (deleteReplicatedConfigMap e n' t' owner' w)) t n"
  by (auto simp: deleteReplicatedConfigMap_def client_Delete_no_owned_copy split: sum.splits)

lemma deleteReplicated_removes:
  assumes "cm_fault e VGet t n = None" "cm_fault e VDelete t n = None"
  shows "no_owned_copy owner (snd (deleteReplicatedConfigMap e n t owner w)) t n"
proof (cases "cm_lookup (configmaps w) t n")
  case None
  with assms show ?thesis
    by (simp add: deleteReplicatedConfigMap_def client_Get_def no_owned_copy_def)
next
  case (Some c)
  then have at: "cm_Namespace c = t" "cm_Name c = n"
    by (auto dest: cm_lookup_Some_at)
  show ?thesis
  proof (cases "owned_by owner c")
    case True
    with Some assms at show ?thesis
      by (simp add: deleteReplicatedConfigMap_def client_Get_def no_owned_copy_def owned_by_def
          client_Delete_def logged_def Let_def cm_lookup_delete_same)
  next
    case False
    with Some assms show ?thesis
      by (simp add: deleteReplicatedConfigMap_def client_Get_def no_owned_copy_def owned_by_def)
  qed
qed

lemma delete_from_targets_no_owned_copy:
  "no_owned_copy owner w t n \<Longrightarrow> no_owned_copy owner (delete_from_targets e n' owner' ts w) t n"
  by (induction ts arbitrary: w) (auto simp: deleteReplicated_no_owned_copy)

lemma delete_from_targets_removes:
  assumes "cm_fault e VGet t n = None" "cm_fault e VDelete t n = None"
  shows "t \<in> set ts \<Longrightarrow> no_owned_copy owner (delete_from_targets e n owner ts w) t n"
proof (induction ts arbitrary: w)
  case Nil
  then show ?case by simp
next
  case (Cons t' ts)
  show ?case
  proof (cases "t' = t")
    case True
    then show ?thesis
      using deleteReplicated_removes [OF assms, of owner w]
      by (simp add: delete_from_targets_no_owned_copy)
  next
    case False
    with Cons show ?thesis by simp
  qed
qed

lemma no_owned_copy_configmaps:
  "configmaps w' = configmaps w \<Longrightarrow> no_owned_copy owner w' t n = no_owned_copy owner w t n"
  by (simp add: no_owned_copy_def)

lemma cleanup_orphans_no_owned_copy:
  "no_owned_copy owner w t n \<Longrightarrow> no_owned_copy owner (cleanup_orphans e m current prev w) t n"
  by (induction prev arbitrary: w)
     (auto simp: Let_def delete_from_targets_no_owned_copy
        no_owned_copy_configmaps [OF DeleteConfigMapRow_frame(1)])

lemma cleanup_orphans_removes:
  assumes "cm_fault e VGet t (rcm_Name p) = None" "cm_fault e VDelete t (rcm_Name p) = None"
    and "t \<in> set (TargetNamespaces (Spec m))" and "rcm_Name p \<notin> set current"
  shows "p \<in> set prev \<Longrightarrow> no_owned_copy m (cleanup_orphans e m current prev w) t (rcm_Name p)"
proof (induction prev arbitrary: w)
  case Nil
  then show ?case by simp
next
  case (Cons q prev)
  show ?case
  proof (cases "q = p")
    case True
    have "no_owned_copy m (delete_from_targets e (rcm_Name p) m (TargetNamespaces (Spec m)) w) t (rcm_Name p)"
      using assms(1,2,3) by (rule delete_from_targets_removes)
    then show ?thesis
      using True assms(4)
      by (simp add: Let_def cleanup_orphans_no_owned_copy
          no_owned_copy_configmaps [OF DeleteConfigMapRow_frame(1)])
  next
    case False
    with Cons show ?thesis by (simp add: Let_def)
  qed
qed

lemma DeleteConfigMapRow_no_record:
  "no_record w n ns owner \<Longrightarrow> no_record (snd (DeleteConfigMapRow e n' ns' mn mns w)) n ns owner"
  by (auto simp: no_record_def DeleteConfigMapRow_def list_ex_iff split: option.splits)

lemma DeleteConfigMapRow_removes:
  "db_fault e DbDelete n ns = None \<Longrightarrow>
   no_record (snd (DeleteConfigMapRow e n ns (mirror_Name owner) (mirror_Namespace owner) w)) n ns owner"
  by (auto simp: no_record_def DeleteConfigMapRow_def list_ex_iff)

lemma no_record_rows: "rows w' = rows w \<Longrightarrow> no_record w' n ns owner = no_record w n ns owner"
  by (simp add: no_record_def)

lemma cleanup_orphans_no_record:
  "no_record w n ns owner \<Longrightarrow> no_record (cleanup_orphans e m current prev w) n ns owner"
  by (induction prev arbitrary: w)
     (auto simp: Let_def DeleteConfigMapRow_no_record no_record_rows [OF delete_from_targets_rest(1)])

lemma cleanup_orphans_removes_record:
  assumes "database_enabled e m" "db_fault e DbDelete (rcm_Name p) (rcm_SourceNamespace p) = None"
    and "rcm_Name p \<notin> set current"
  shows "p \<in> set prev \<Longrightarrow>
    no_record (cleanup_orphans e m current prev w) (rcm_Name p) (rcm_SourceNamespace p) m"
proof (induction prev arbitrary: w)
  case Nil
  then show ?case by simp
next
  case (Cons q prev)
  show ?case
  proof (cases "q = p")
    case True
    then show ?thesis
      using assms DeleteConfigMapRow_removes [OF assms(2), of m]
      by (simp add: Let_def cleanup_orphans_no_record)
  next
    case False
    with Cons show ?thesis by (simp add: Let_def)
  qed
qed

subsection \<open>The targets recorded for a source object\<close>

lemma replicateConfigMap_other:
  assumes "(ns, n) \<noteq> (t, cm_Name cm)"
  shows "cm_lookup (configmaps (snd (replicateConfigMap e cm t owner w))) ns n = cm_lookup (configmaps w) ns n"
proof (cases "client_Get e w t (cm_Name cm)")
  case (Inl err)
  with assms show ?thesis
    by (auto simp: replicateConfigMap_def client_Create_def logged_def Let_def cm_lookup_append
        cm_at_def split: option.splits)
next
  case (Inr existing)
  then have "cm_Namespace existing = t" "cm_Name existing = cm_Name cm"
    by (auto dest!: client_Get_Inr cm_lookup_Some_at)
  with Inr assms show ?thesis
    by (auto simp: replicateConfigMap_def client_Update_def logged_def Let_def cm_lookup_update_other
        split: option.splits)
qed

lemma replicateConfigMap_depends:
  assumes "cm_lookup (configmaps w) t (cm_Name cm) = cm_lookup (configmaps w') t (cm_Name cm)"
  shows "fst (replicateConfigMap e cm t owner w) = fst (replicateConfigMap e cm t owner w')"
proof -
  have get: "client_Get e w t (cm_Name cm) = client_Get e w' t (cm_Name cm)"
    using assms by (simp add: client_Get_def cong: case_congs)
  show ?thesis
  proof (cases "client_Get e w t (cm_Name cm)")
    case (Inl err)
    with get have g': "client_Get e w' t (cm_Name cm) = Inl err" by simp
    show ?thesis
      using assms
      by (auto simp: replicateConfigMap_def Inl g' client_Create_def logged_def Let_def
          split: option.splits)
  next
    case (Inr existing)
    then have at: "cm_Namespace existing = t" "cm_Name existing = cm_Name cm"
      by (auto dest!: client_Get_Inr cm_lookup_Some_at)
    from Inr get have g': "client_Get e w' t (cm_Name cm) = Inr existing" by simp
    show ?thesis
      using assms
      by (auto simp: replicateConfigMap_def Inr g' at client_Update_def logged_def Let_def
          split: option.splits)
  qed
qed

lemma replicate_targets_other:
  "n \<noteq> cm_Name cm \<Longrightarrow>
   cm_lookup (configmaps (snd (replicate_targets e cm owner ts acc w))) ns n = cm_lookup (configmaps w) ns n"
  by (induction ts arbitrary: acc w)
     (auto simp: case_prod_beta replicateConfigMap_other split: option.splits)

lemma replicate_targets_filter:
  "distinct ts \<Longrightarrow>
   fst (replicate_targets e cm owner ts acc w) =
     acc @ filter (\<lambda>t. fst (replicateConfigMap e cm t owner w) = None) ts"
proof (induction ts arbitrary: acc w)
  case Nil
  then show ?case by simp
next
  case (Cons t ts)
  let ?w1 = "snd (replicateConfigMap e cm t owner w)"
  have same: "fst (replicateConfigMap e cm t' owner ?w1) = fst (replicateConfigMap e cm t' owner w)"
    if "t' \<in> set ts" for t'
  proof -
    from that Cons.prems have "(t', cm_Name cm) \<noteq> (t, cm_Name cm)" by auto
    then show ?thesis
      by (intro replicateConfigMap_depends replicateConfigMap_other)
  qed
  have flt: "filter (\<lambda>t'. fst (replicateConfigMap e cm t' owner ?w1) = None) ts
      = filter (\<lambda>t'. fst (replicateConfigMap e cm t' owner w) = None) ts"
    by (rule filter_cong) (simp_all add: same)
  from Cons.prems have d: "distinct ts" by simp
  show ?case
    using Cons.IH [OF d, of _ ?w1] flt
    by (simp add: case_prod_beta split: option.splits)
qed

lemma recorded_entry_cong:
  assumes "\<And>t. cm_lookup (configmaps w') t (cm_Name cm) = cm_lookup (configmaps w) t (cm_Name cm)"
  shows "recorded_entry e owner w' cm = recorded_entry e owner w cm"
proof -
  have "fst (replicateConfigMap e cm t owner w') = fst (replicateConfigMap e cm t owner w)" for t
    by (rule replicateConfigMap_depends) (rule assms)
  then show ?thesis by (simp add: recorded_entry_def)
qed

lemma replicate_all_entries:
  "distinct (map cm_Name items) \<Longrightarrow> distinct (TargetNamespaces (Spec m)) \<Longrightarrow>
   fst (replicate_all e m items acc w) = acc @ map (recorded_entry e m w) items"
proof (induction items arbitrary: acc w)
  case Nil
  then show ?case by simp
next
  case (Cons cm items)
  let ?ts = "TargetNamespaces (Spec m)"
  let ?w1 = "snd (replicate_targets e cm m ?ts [] w)"
  let ?w2 = "if database_enabled e m
             then snd (SaveConfigMap e cm (mirror_Name m) (mirror_Namespace m) ?w1) else ?w1"
  have w2: "configmaps ?w2 = configmaps ?w1"
    by (simp add: SaveConfigMap_frame)
  have ent: "recorded_entry e m ?w2 cm' = recorded_entry e m w cm'" if "cm' \<in> set items" for cm'
  proof (rule recorded_entry_cong)
    fix t
    from that have "cm_Name cm' \<in> set (map cm_Name items)" by simp
    with Cons.prems(1) have "cm_Name cm' \<noteq> cm_Name cm" by auto
    then show "cm_lookup (configmaps ?w2) t (cm_Name cm') = cm_lookup (configmaps w) t (cm_Name cm')"
      unfolding w2 by (rule replicate_targets_other)
  qed
  have m: "map (recorded_entry e m ?w2) items = map (recorded_entry e m w) items"
    by (rule map_cong) (simp_all add: ent)
  from Cons.prems have d: "distinct (map cm_Name items)" by simp
  have first: "fst (replicate_targets e cm m ?ts [] w) = rcm_Targets (recorded_entry e m w cm)"
    using replicate_targets_filter [OF Cons.prems(2), of e cm m "[]" w]
    by (simp add: recorded_entry_def)
  show ?case
    using Cons.IH [OF d Cons.prems(2), of _ ?w2] m first
    by (simp add: case_prod_beta recorded_entry_def)
qed

lemma distinct_listed_names:
  assumes "distinct (map cm_key s)"
  shows "distinct (map cm_Name (filter (\<lambda>c. cm_Namespace c = ns \<and> P c) s))"
proof -
  let ?xs = "filter (\<lambda>c. cm_Namespace c = ns \<and> P c) s"
  have "distinct (map cm_key ?xs)"
    using assms by (rule distinct_map_filter)
  moreover have "map cm_key ?xs = map (Pair ns) (map cm_Name ?xs)"
    by (simp add: cm_key_def)
  ultimately have "distinct (map (Pair ns) (map cm_Name ?xs))" by (simp only:)
  then have "distinct (map cm_Name ?xs) \<and> inj_on (Pair ns) (set (map cm_Name ?xs))"
    by (simp only: distinct_map)
  then show ?thesis ..
qed

lemma client_List_distinct:
  "distinct (map cm_key (configmaps w)) \<Longrightarrow> client_List e w ns p = Inr items \<Longrightarrow>
   distinct (map cm_Name items)"
  by (auto simp: client_List_def distinct_listed_names split: option.splits)

lemma mirror_Get_Inr:
  "mirror_Get e w req = Inr m \<Longrightarrow>
   mirror_lookup (mirrors w) (mirror_Namespace m) (mirror_Name m) = Some m
   \<and> req = (mirror_Namespace m, mirror_Name m)"
  by (auto simp: mirror_Get_def mirror_lookup_def mirror_at_def find_Some_iff split: option.splits)

lemma updateStatus_stored:
  assumes "cr_fault e VUpdateStatus = None"
    and "mirror_lookup (mirrors w) (mirror_Namespace m) (mirror_Name m) = Some old"
  shows "map_option (\<lambda>x. st_ReplicatedConfigMaps (Status x))
           (mirror_lookup (mirrors (updateStatus e m s r msg w)) (mirror_Namespace m) (mirror_Name m))
         = Some (st_ReplicatedConfigMaps (Status m))"
proof -
  let ?S = "(Status m)\<lparr>st_Conditions := SetStatusCondition (st_Conditions (Status m))
      \<lparr>cond_Type = ''Ready'', cond_Status = s, cond_ObservedGeneration = mirror_Generation m,
       cond_LastTransitionTime = status_now e, cond_Reason = r, cond_Message = msg\<rparr>\<rparr>"
  let ?f = "\<lambda>x. if mirror_at (mirror_Namespace m) (mirror_Name m) x then x\<lparr>Status := ?S\<rparr> else x"
  have "mirror_lookup (map ?f (mirrors w)) (mirror_Namespace m) (mirror_Name m)
      = map_option ?f (mirror_lookup (mirrors w) (mirror_Namespace m) (mirror_Name m))"
    unfolding mirror_lookup_def by (rule find_map_pres) (auto simp: mirror_at_def)
  moreover have "mirror_at (mirror_Namespace m) (mirror_Name m) old"
    using assms(2) by (auto simp: mirror_lookup_def find_Some_iff)
  moreover have "mirrors (updateStatus e m s r msg w) = map ?f (mirrors w)"
    using assms by (simp add: updateStatus_def status_Update_def logged_def Let_def)
  ultimately show ?thesis
    using assms(2) by simp
qed

section \<open>Two consecutive passes without faults\<close>

subsection \<open>A pass without faults: the object store keeps one object per key\<close>

lemma no_faults_simps:
  "no_faults e \<Longrightarrow> cm_fault e v ns n = None"
  "no_faults e \<Longrightarrow> cr_fault e v' = None"
  "no_faults e \<Longrightarrow> db_fault e v'' a b = None"
  by (simp_all add: no_faults_def)

lemma cm_lookup_None_key: "cm_lookup s ns n = None \<Longrightarrow> (ns, n) \<notin> set (map cm_key s)"
  by (auto simp: cm_lookup_def find_None_iff cm_at_def cm_key_def)

lemma update_same_id:
  assumes "distinct (map cm_key s)" and "cm_lookup s ns n = Some x"
  shows "map (\<lambda>y. if cm_at ns n y then x else y) s = s"
proof (rule map_idI)
  fix y assume y: "y \<in> set s"
  from assms(2) have x: "x \<in> set s" "cm_at ns n x"
    by (auto simp: cm_lookup_def find_Some_iff)
  from assms(1) have inj: "inj_on cm_key (set s)"
    by (simp add: distinct_map)
  show "(if cm_at ns n y then x else y) = y"
  proof (cases "cm_at ns n y")
    case True
    with x have "cm_key y = cm_key x" by (simp add: cm_at_def cm_key_def)
    with inj x y have "y = x" by (auto dest: inj_onD)
    with True show ?thesis by simp
  next
    case False
    then show ?thesis by simp
  qed
qed

lemma client_Create_distinct:
  "distinct (map cm_key (configmaps w)) \<Longrightarrow> distinct (map cm_key (configmaps (snd (client_Create e c w))))"
  by (auto simp: client_Create_def logged_def Let_def cm_key_def
      dest!: cm_lookup_None_key split: option.splits)

lemma client_Update_distinct:
  "distinct (map cm_key (configmaps w)) \<Longrightarrow> distinct (map cm_key (configmaps (snd (client_Update e c w))))"
proof -
  have "map cm_key (map (\<lambda>x. if cm_at (cm_Namespace c) (cm_Name c) x then c else x) s) = map cm_key s" for s
    by (induction s) (auto simp: cm_at_def cm_key_def)
  then show "distinct (map cm_key (configmaps w)) \<Longrightarrow> ?thesis"
    by (auto simp: client_Update_def logged_def Let_def simp del: map_map split: option.splits)
qed

lemma client_Delete_distinct:
  "distinct (map cm_key (configmaps w)) \<Longrightarrow> distinct (map cm_key (configmaps (snd (client_Delete e c w))))"
  by (auto simp: client_Delete_def logged_def Let_def distinct_map_filter split: option.splits)

lemma replicateConfigMap_distinct:
  "distinct (map cm_key (configmaps w)) \<Longrightarrow>
   distinct (map cm_key (configmaps (snd (replicateConfigMap e cm t owner w))))"
  by (auto simp: replicateConfigMap_def Let_def client_Create_distinct client_Update_distinct
      split: sum.splits)

lemma replicateConfigMap_ok:
  assumes "no_faults e"
  shows "fst (replicateConfigMap e cm t owner w) = None
    \<and> synced (ownerLabelValue owner) (snd (replicateConfigMap e cm t owner w)) cm t"
proof (cases "cm_lookup (configmaps w) t (cm_Name cm)")
  case None
  with assms show ?thesis
    by (simp add: replicateConfigMap_def client_Get_def client_Create_def logged_def Let_def
        no_faults_simps synced_def cm_lookup_append cm_at_def)
next
  case (Some x)
  then have at: "cm_Namespace x = t" "cm_Name x = cm_Name cm"
    by (auto dest: cm_lookup_Some_at)
  with Some assms show ?thesis
    by (simp add: replicateConfigMap_def client_Get_def client_Update_def logged_def Let_def
        no_faults_simps synced_def cm_lookup_update_same index_def)
qed

lemma replicateConfigMap_id:
  assumes "no_faults e" and "distinct (map cm_key (configmaps w))"
    and "synced (ownerLabelValue owner) w cm t"
  shows "configmaps (snd (replicateConfigMap e cm t owner w)) = configmaps w"
proof -
  from assms(3) obtain x where x: "cm_lookup (configmaps w) t (cm_Name cm) = Some x"
    "cm_Data x = cm_Data cm" "cm_BinaryData x = cm_BinaryData cm"
    "cm_Labels x ownerLabel = Some (ownerLabelValue owner)"
    by (auto simp: synced_def split: option.splits)
  then have at: "cm_Namespace x = t" "cm_Name x = cm_Name cm"
    by (auto dest: cm_lookup_Some_at)
  have lab: "(cm_Labels x)(ownerLabel \<mapsto> ownerLabelValue owner) = cm_Labels x"
    using x(4) by (rule map_upd_triv)
  have same: "x\<lparr>cm_Data := cm_Data cm, cm_BinaryData := cm_BinaryData cm,
      cm_Labels := (cm_Labels x)(ownerLabel \<mapsto> ownerLabelValue owner)\<rparr> = x"
    unfolding lab using x(2,3) by simp
  show ?thesis
    using assms(1) x(1) at update_same_id [OF assms(2) x(1)]
    by (simp add: replicateConfigMap_def client_Get_def client_Update_def logged_def Let_def
        no_faults_simps index_def same)
qed

lemma synced_lookup:
  "cm_lookup (configmaps w') t (cm_Name cm) = cm_lookup (configmaps w) t (cm_Name cm) \<Longrightarrow>
   synced v w' cm t = synced v w cm t"
  by (simp add: synced_def)

subsection \<open>What the replication establishes\<close>

lemma replicate_targets_distinct:
  "distinct (map cm_key (configmaps w)) \<Longrightarrow>
   distinct (map cm_key (configmaps (snd (replicate_targets e cm owner ts acc w))))"
proof (induction ts arbitrary: acc w)
  case Nil
  then show ?case by simp
next
  case (Cons t ts)
  have "distinct (map cm_key (configmaps (snd (replicateConfigMap e cm t owner w))))"
    using Cons.prems by (rule replicateConfigMap_distinct)
  then show ?case
    by (simp add: case_prod_beta Cons.IH split: option.splits)
qed

lemma replicate_all_distinct:
  "distinct (map cm_key (configmaps w)) \<Longrightarrow>
   distinct (map cm_key (configmaps (snd (replicate_all e m items acc w))))"
proof (induction items arbitrary: acc w)
  case Nil
  then show ?case by simp
next
  case (Cons c items)
  let ?w1 = "snd (replicate_targets e c m (TargetNamespaces (Spec m)) [] w)"
  have "distinct (map cm_key (configmaps ?w1))"
    using Cons.prems by (rule replicate_targets_distinct)
  then have "distinct (map cm_key (configmaps
      (if database_enabled e m then snd (SaveConfigMap e c (mirror_Name m) (mirror_Namespace m) ?w1)
       else ?w1)))"
    by (simp add: SaveConfigMap_frame)
  then show ?case
    by (simp add: case_prod_beta Cons.IH)
qed

lemma replicateConfigMap_keeps:
  assumes "no_faults e" and "synced (ownerLabelValue owner) w cm t"
  shows "synced (ownerLabelValue owner) (snd (replicateConfigMap e cm t' owner w)) cm t"
proof (cases "t' = t")
  case True
  with assms(1) show ?thesis by (simp add: replicateConfigMap_ok)
next
  case False
  then have "(t, cm_Name cm) \<noteq> (t', cm_Name cm)" by simp
  then have "cm_lookup (configmaps (snd (replicateConfigMap e cm t' owner w))) t (cm_Name cm)
      = cm_lookup (configmaps w) t (cm_Name cm)"
    by (rule replicateConfigMap_other)
  with assms(2) show ?thesis by (simp add: synced_def)
qed

lemma replicate_targets_keeps:
  "no_faults e \<Longrightarrow> synced (ownerLabelValue owner) w cm t \<Longrightarrow>
   synced (ownerLabelValue owner) (snd (replicate_targets e cm owner ts acc w)) cm t"
proof (induction ts arbitrary: acc w)
  case Nil
  then show ?case by simp
next
  case (Cons t' ts)
  have "synced (ownerLabelValue owner) (snd (replicateConfigMap e cm t' owner w)) cm t"
    using Cons.prems by (rule replicateConfigMap_keeps)
  then show ?case
    using Cons.prems(1) by (simp add: case_prod_beta Cons.IH split: option.splits)
qed

lemma replicate_targets_synced:
  "no_faults e \<Longrightarrow> t \<in> set ts \<Longrightarrow>
   synced (ownerLabelValue owner) (snd (replicate_targets e cm owner ts acc w)) cm t"
proof (induction ts arbitrary: acc w)
  case Nil
  then show ?case by simp
next
  case (Cons t' ts)
  show ?case
  proof (cases "t' = t")
    case True
    have "synced (ownerLabelValue owner) (snd (replicateConfigMap e cm t owner w)) cm t"
      using Cons.prems(1) by (simp add: replicateConfigMap_ok)
    then show ?thesis
      using True Cons.prems(1)
      by (simp add: case_prod_beta replicate_targets_keeps split: option.splits)
  next
    case False
    with Cons show ?thesis
      by (simp add: case_prod_beta split: option.splits)
  qed
qed

lemma replicate_targets_all:
  "no_faults e \<Longrightarrow> fst (replicate_targets e cm owner ts acc w) = acc @ ts"
  by (induction ts arbitrary: acc w) (simp_all add: case_prod_beta replicateConfigMap_ok)

lemma replicate_all_full:
  "no_faults e \<Longrightarrow> fst (replicate_all e m items acc w) = acc @ map (full_entry e m) items"
  by (induction items arbitrary: acc w)
     (simp_all add: case_prod_beta replicate_targets_all full_entry_def)

lemma replicate_all_other:
  "n \<notin> set (map cm_Name items) \<Longrightarrow>
   cm_lookup (configmaps (snd (replicate_all e m items acc w))) t n = cm_lookup (configmaps w) t n"
  by (induction items arbitrary: acc w)
     (auto simp: case_prod_beta replicate_targets_other SaveConfigMap_frame)

lemma replicate_all_synced:
  assumes "no_faults e"
  shows "distinct (map cm_Name items) \<Longrightarrow> cm \<in> set items \<Longrightarrow> t \<in> set (TargetNamespaces (Spec m)) \<Longrightarrow>
    synced (ownerLabelValue m) (snd (replicate_all e m items acc w)) cm t"
proof (induction items arbitrary: acc w)
  case Nil
  then show ?case by simp
next
  case (Cons c items)
  let ?ts = "TargetNamespaces (Spec m)"
  let ?w1 = "snd (replicate_targets e c m ?ts [] w)"
  let ?w2 = "if database_enabled e m
             then snd (SaveConfigMap e c (mirror_Name m) (mirror_Namespace m) ?w1) else ?w1"
  let ?acc = "acc @ [\<lparr>rcm_Name = cm_Name c, rcm_SourceNamespace = cm_Namespace c,
      rcm_Targets = fst (replicate_targets e c m ?ts [] w), rcm_LastSyncTime = Some (now e)\<rparr>]"
  have step: "snd (replicate_all e m (c # items) acc w) = snd (replicate_all e m items ?acc ?w2)"
    by (simp add: case_prod_beta)
  have w2: "configmaps ?w2 = configmaps ?w1"
    by (simp add: SaveConfigMap_frame)
  show ?case
  proof (cases "cm = c")
    case True
    have "synced (ownerLabelValue m) ?w1 c t"
      using assms Cons.prems(3) by (rule replicate_targets_synced)
    then have "synced (ownerLabelValue m) ?w2 c t"
      by (simp add: synced_def w2)
    moreover from Cons.prems(1) have "cm_Name c \<notin> set (map cm_Name items)" by simp
    then have "cm_lookup (configmaps (snd (replicate_all e m items ?acc ?w2))) t (cm_Name c)
        = cm_lookup (configmaps ?w2) t (cm_Name c)"
      by (rule replicate_all_other)
    ultimately show ?thesis
      unfolding step True by (simp add: synced_def)
  next
    case False
    with Cons.prems have "cm \<in> set items" "distinct (map cm_Name items)" by simp_all
    then show ?thesis
      unfolding step using Cons.IH Cons.prems(3) by blast
  qed
qed

lemma client_Create_frame_ns:
  "cm_Namespace c \<noteq> s \<Longrightarrow>
   filter (\<lambda>x. cm_Namespace x = s) (configmaps (snd (client_Create e c w))) =
   filter (\<lambda>x. cm_Namespace x = s) (configmaps w)"
  by (auto simp: client_Create_def logged_def Let_def split: option.splits)

lemma client_Update_frame_ns:
  assumes "cm_Namespace c \<noteq> s"
  shows "filter (\<lambda>x. cm_Namespace x = s) (configmaps (snd (client_Update e c w))) =
   filter (\<lambda>x. cm_Namespace x = s) (configmaps w)"
proof -
  have "filter (\<lambda>x. cm_Namespace x = s) (map (\<lambda>x. if cm_at (cm_Namespace c) (cm_Name c) x then c else x) xs)
      = filter (\<lambda>x. cm_Namespace x = s) xs" for xs
    using assms by (induction xs) (auto simp: cm_at_def)
  then show ?thesis
    by (auto simp: client_Update_def logged_def Let_def split: option.splits)
qed

lemma replicateConfigMap_frame_ns:
  assumes "t \<noteq> s"
  shows "filter (\<lambda>x. cm_Namespace x = s) (configmaps (snd (replicateConfigMap e cm t owner w))) =
   filter (\<lambda>x. cm_Namespace x = s) (configmaps w)"
proof (cases "client_Get e w t (cm_Name cm)")
  case (Inl err)
  with assms show ?thesis
    by (simp add: replicateConfigMap_def Let_def client_Create_frame_ns)
next
  case (Inr existing)
  then have "cm_Namespace existing = t"
    by (auto dest!: client_Get_Inr cm_lookup_Some_at)
  with Inr assms show ?thesis
    by (simp add: replicateConfigMap_def Let_def client_Update_frame_ns)
qed

lemma replicate_targets_frame_ns:
  "s \<notin> set ts \<Longrightarrow>
   filter (\<lambda>x. cm_Namespace x = s) (configmaps (snd (replicate_targets e cm owner ts acc w))) =
   filter (\<lambda>x. cm_Namespace x = s) (configmaps w)"
  by (induction ts arbitrary: acc w)
     (auto simp: case_prod_beta replicateConfigMap_frame_ns split: option.splits)

lemma replicate_all_frame_ns:
  "s \<notin> set (TargetNamespaces (Spec m)) \<Longrightarrow>
   filter (\<lambda>x. cm_Namespace x = s) (configmaps (snd (replicate_all e m items acc w))) =
   filter (\<lambda>x. cm_Namespace x = s) (configmaps w)"
  by (induction items arbitrary: acc w)
     (auto simp: case_prod_beta replicate_targets_frame_ns SaveConfigMap_frame)

lemma cleanup_orphans_frame_ns:
  "s \<notin> set (TargetNamespaces (Spec m)) \<Longrightarrow>
   filter (\<lambda>x. cm_Namespace x = s) (configmaps (cleanup_orphans e m current prev w)) =
   filter (\<lambda>x. cm_Namespace x = s) (configmaps w)"
  by (induction prev arbitrary: w)
     (auto simp: Let_def delete_from_targets_frame DeleteConfigMapRow_frame)

lemma deleteReplicated_distinct:
  "distinct (map cm_key (configmaps w)) \<Longrightarrow>
   distinct (map cm_key (configmaps (snd (deleteReplicatedConfigMap e n t owner w))))"
  by (auto simp: deleteReplicatedConfigMap_def client_Delete_distinct split: sum.splits)

lemma delete_from_targets_distinct:
  "distinct (map cm_key (configmaps w)) \<Longrightarrow>
   distinct (map cm_key (configmaps (delete_from_targets e n owner ts w)))"
  by (induction ts arbitrary: w) (auto simp: deleteReplicated_distinct)

lemma cleanup_orphans_distinct:
  "distinct (map cm_key (configmaps w)) \<Longrightarrow>
   distinct (map cm_key (configmaps (cleanup_orphans e m current prev w)))"
  by (induction prev arbitrary: w)
     (auto simp: Let_def delete_from_targets_distinct DeleteConfigMapRow_frame)

lemma deleteReplicated_other:
  assumes "n' \<noteq> n"
  shows "cm_lookup (configmaps (snd (deleteReplicatedConfigMap e n' t' owner w))) t n
    = cm_lookup (configmaps w) t n"
proof (cases "client_Get e w t' n'")
  case (Inl err)
  then show ?thesis by (simp add: deleteReplicatedConfigMap_def)
next
  case (Inr c)
  then have "cm_Namespace c = t'" "cm_Name c = n'"
    by (auto dest!: client_Get_Inr cm_lookup_Some_at)
  with Inr assms show ?thesis
    by (auto simp: deleteReplicatedConfigMap_def client_Delete_def logged_def Let_def
        cm_lookup_delete_other split: option.splits)
qed

lemma delete_from_targets_other:
  "n' \<noteq> n \<Longrightarrow>
   cm_lookup (configmaps (delete_from_targets e n' owner ts w)) t n = cm_lookup (configmaps w) t n"
  by (induction ts arbitrary: w) (auto simp: deleteReplicated_other)

lemma cleanup_orphans_other:
  "n \<in> set current \<Longrightarrow>
   cm_lookup (configmaps (cleanup_orphans e m current prev w)) t n = cm_lookup (configmaps w) t n"
proof (induction prev arbitrary: w)
  case Nil
  then show ?case by simp
next
  case (Cons p prev)
  show ?case
  proof (cases "rcm_Name p \<in> set current")
    case True
    with Cons show ?thesis by simp
  next
    case False
    with Cons.prems have "rcm_Name p \<noteq> n" by auto
    with False Cons show ?thesis
      by (simp add: Let_def delete_from_targets_other DeleteConfigMapRow_frame)
  qed
qed

lemma cleanup_orphans_noop:
  "list_all (\<lambda>p. rcm_Name p \<in> set current) prev \<Longrightarrow> cleanup_orphans e m current prev w = w"
  by (induction prev arbitrary: w) auto

subsection \<open>The rows of the table\<close>

lemma upsert_map_synced:
  assumes "list_ex K rs" and "\<And>r. K (u r) = K r" and "\<And>r. P (u r)"
  shows "list_ex K (map (\<lambda>r. if K r then u r else r) rs)
   \<and> list_all (\<lambda>r. K r \<longrightarrow> P r) (map (\<lambda>r. if K r then u r else r) rs)"
proof
  from assms(1) obtain r where r: "r \<in> set rs" "K r"
    by (auto simp: list_ex_iff)
  then have "u r \<in> set (map (\<lambda>r. if K r then u r else r) rs)" by force
  with r(2) assms(2) show "list_ex K (map (\<lambda>r. if K r then u r else r) rs)"
    unfolding list_ex_iff by blast
  show "list_all (\<lambda>r. K r \<longrightarrow> P r) (map (\<lambda>r. if K r then u r else r) rs)"
    using assms(3) by (induction rs) auto
qed

lemma upsert_append_synced:
  assumes "\<not> list_ex K rs" and "K x" and "P x"
  shows "list_ex K (rs @ [x]) \<and> list_all (\<lambda>r. K r \<longrightarrow> P r) (rs @ [x])"
  using assms by (auto simp: list_ex_iff list_all_iff)

lemma upsert_map_keeps:
  assumes "\<And>r. K' r \<Longrightarrow> \<not> K r" and "\<And>r. K (u r) = K r"
    and "list_ex K rs \<and> list_all (\<lambda>r. K r \<longrightarrow> P r) rs"
  shows "list_ex K (map (\<lambda>r. if K' r then u r else r) rs)
   \<and> list_all (\<lambda>r. K r \<longrightarrow> P r) (map (\<lambda>r. if K' r then u r else r) rs)"
proof
  from assms(3) obtain r where r: "r \<in> set rs" "K r"
    by (auto simp: list_ex_iff)
  with assms(1) have "\<not> K' r" by blast
  with r(1) have "r \<in> set (map (\<lambda>r. if K' r then u r else r) rs)" by force
  with r(2) show "list_ex K (map (\<lambda>r. if K' r then u r else r) rs)"
    unfolding list_ex_iff by blast
  from assms(3) have "list_all (\<lambda>r. K r \<longrightarrow> P r) rs" by simp
  then show "list_all (\<lambda>r. K r \<longrightarrow> P r) (map (\<lambda>r. if K' r then u r else r) rs)"
    using assms(1,2) by (induction rs) auto
qed

lemma filter_keeps:
  assumes "\<And>r. K r \<Longrightarrow> Q r" and "list_ex K rs \<and> list_all (\<lambda>r. K r \<longrightarrow> P r) rs"
  shows "list_ex K (filter Q rs) \<and> list_all (\<lambda>r. K r \<longrightarrow> P r) (filter Q rs)"
  using assms by (auto simp: list_ex_iff list_all_iff)

lemma SaveConfigMap_establishes:
  assumes "no_faults e"
  shows "row_synced mn mns (rows (snd (SaveConfigMap e cm mn mns w))) cm"
proof (cases "list_ex (row_at (cm_Name cm) (cm_Namespace cm) mn mns) (rows w)")
  case True
  let ?u = "\<lambda>r. r\<lparr>row_data := cm_Data cm, row_labels := cm_Labels cm,
                   row_annotations := cm_Annotations cm, row_updated_at := db_now e\<rparr>"
  have "list_ex (row_at (cm_Name cm) (cm_Namespace cm) mn mns)
          (map (\<lambda>r. if row_at (cm_Name cm) (cm_Namespace cm) mn mns r then ?u r else r) (rows w))
      \<and> list_all (\<lambda>r. row_at (cm_Name cm) (cm_Namespace cm) mn mns r \<longrightarrow>
            row_data r = cm_Data cm \<and> row_labels r = cm_Labels cm
            \<and> row_annotations r = cm_Annotations cm)
          (map (\<lambda>r. if row_at (cm_Name cm) (cm_Namespace cm) mn mns r then ?u r else r) (rows w))"
    using True by (rule upsert_map_synced) (simp_all add: row_at_def)
  with True assms show ?thesis
    by (simp add: SaveConfigMap_def row_synced_def no_faults_simps)
next
  case False
  let ?x = "\<lparr>row_name = cm_Name cm, row_namespace = cm_Namespace cm, row_data = cm_Data cm,
      row_labels = cm_Labels cm, row_annotations = cm_Annotations cm,
      row_configmirror_name = mn, row_configmirror_namespace = mns,
      row_created_at = db_now e, row_updated_at = db_now e\<rparr>"
  have "list_ex (row_at (cm_Name cm) (cm_Namespace cm) mn mns) (rows w @ [?x])
      \<and> list_all (\<lambda>r. row_at (cm_Name cm) (cm_Namespace cm) mn mns r \<longrightarrow>
            row_data r = cm_Data cm \<and> row_labels r = cm_Labels cm
            \<and> row_annotations r = cm_Annotations cm) (rows w @ [?x])"
    using False by (rule upsert_append_synced) (simp_all add: row_at_def)
  with False assms show ?thesis
    by (simp add: SaveConfigMap_def row_synced_def no_faults_simps)
qed

lemma SaveConfigMap_keeps:
  assumes "cm_Name cm' \<noteq> cm_Name cm" and "row_synced mn mns (rows w) cm"
  shows "row_synced mn mns (rows (snd (SaveConfigMap e cm' mn mns w))) cm"
proof -
  let ?K = "row_at (cm_Name cm) (cm_Namespace cm) mn mns"
  let ?K' = "row_at (cm_Name cm') (cm_Namespace cm') mn mns"
  let ?P = "\<lambda>r. row_data r = cm_Data cm \<and> row_labels r = cm_Labels cm
            \<and> row_annotations r = cm_Annotations cm"
  let ?u = "\<lambda>r. r\<lparr>row_data := cm_Data cm', row_labels := cm_Labels cm',
                   row_annotations := cm_Annotations cm', row_updated_at := db_now e\<rparr>"
  let ?x = "\<lparr>row_name = cm_Name cm', row_namespace = cm_Namespace cm', row_data = cm_Data cm',
      row_labels = cm_Labels cm', row_annotations = cm_Annotations cm',
      row_configmirror_name = mn, row_configmirror_namespace = mns,
      row_created_at = db_now e, row_updated_at = db_now e\<rparr>"
  from assms(2) have s: "list_ex ?K (rows w) \<and> list_all (\<lambda>r. ?K r \<longrightarrow> ?P r) (rows w)"
    by (simp add: row_synced_def)
  have m: "list_ex ?K (map (\<lambda>r. if ?K' r then ?u r else r) (rows w))
      \<and> list_all (\<lambda>r. ?K r \<longrightarrow> ?P r) (map (\<lambda>r. if ?K' r then ?u r else r) (rows w))"
  proof (rule upsert_map_keeps)
    show "\<not> ?K r" if "?K' r" for r
      using that assms(1) by (simp add: row_at_def)
    show "?K (?u r) = ?K r" for r
      by (simp add: row_at_def)
  qed (rule s)
  have a: "list_ex ?K (rows w @ [?x]) \<and> list_all (\<lambda>r. ?K r \<longrightarrow> ?P r) (rows w @ [?x])"
    using s assms(1) by (simp add: row_at_def)
  show ?thesis
    using s m a by (simp add: SaveConfigMap_def row_synced_def split: option.splits)
qed

lemma DeleteConfigMapRow_keeps:
  assumes "n \<noteq> cm_Name cm" and "row_synced mn mns (rows w) cm"
  shows "row_synced mn mns (rows (snd (DeleteConfigMapRow e n ns mn mns w))) cm"
proof -
  let ?K = "row_at (cm_Name cm) (cm_Namespace cm) mn mns"
  let ?P = "\<lambda>r. row_data r = cm_Data cm \<and> row_labels r = cm_Labels cm
            \<and> row_annotations r = cm_Annotations cm"
  from assms(2) have s: "list_ex ?K (rows w) \<and> list_all (\<lambda>r. ?K r \<longrightarrow> ?P r) (rows w)"
    by (simp add: row_synced_def)
  have f: "list_ex ?K (filter (\<lambda>r. \<not> row_at n ns mn mns r) (rows w))
      \<and> list_all (\<lambda>r. ?K r \<longrightarrow> ?P r) (filter (\<lambda>r. \<not> row_at n ns mn mns r) (rows w))"
  proof (rule filter_keeps)
    show "\<not> row_at n ns mn mns r" if "?K r" for r
      using that assms(1) by (simp add: row_at_def)
  qed (rule s)
  show ?thesis
    using s f by (simp add: DeleteConfigMapRow_def row_synced_def split: option.splits)
qed

lemma SaveConfigMap_again:
  assumes "no_faults e" and "row_synced mn mns (rows w) cm"
  shows "map row_sans_updated (rows (snd (SaveConfigMap e cm mn mns w))) = map row_sans_updated (rows w)"
proof -
  from assms(2) have ex: "list_ex (row_at (cm_Name cm) (cm_Namespace cm) mn mns) (rows w)"
    and all: "\<And>r. r \<in> set (rows w) \<Longrightarrow> row_at (cm_Name cm) (cm_Namespace cm) mn mns r \<Longrightarrow>
        row_data r = cm_Data cm \<and> row_labels r = cm_Labels cm \<and> row_annotations r = cm_Annotations cm"
    by (auto simp: row_synced_def list_all_iff)
  have "map row_sans_updated
      (map (\<lambda>r. if row_at (cm_Name cm) (cm_Namespace cm) mn mns r
                then r\<lparr>row_data := cm_Data cm, row_labels := cm_Labels cm,
                       row_annotations := cm_Annotations cm, row_updated_at := db_now e\<rparr>
                else r) (rows w))
      = map row_sans_updated (rows w)"
    unfolding map_map
  proof (rule map_cong [OF refl])
    fix r assume r: "r \<in> set (rows w)"
    show "(row_sans_updated \<circ> (\<lambda>r. if row_at (cm_Name cm) (cm_Namespace cm) mn mns r
                then r\<lparr>row_data := cm_Data cm, row_labels := cm_Labels cm,
                       row_annotations := cm_Annotations cm, row_updated_at := db_now e\<rparr>
                else r)) r = row_sans_updated r"
      using all [OF r] by (cases r) (auto simp: row_sans_updated_def)
  qed
  with ex assms(1) show ?thesis
    by (simp add: SaveConfigMap_def no_faults_simps)
qed

lemma row_synced_sans:
  assumes "map row_sans_updated rs' = map row_sans_updated rs"
  shows "row_synced mn mns rs' cm = row_synced mn mns rs cm"
proof -
  have "row_synced mn mns xs cm = row_synced mn mns (map row_sans_updated xs) cm" for xs
    by (simp add: row_synced_def list_ex_iff list_all_iff row_at_def row_sans_updated_def)
  from this [of rs'] this [of rs] assms show ?thesis by simp
qed

lemma replicate_targets_rows: "rows (snd (replicate_targets e cm owner ts acc w)) = rows w"
  by (induction ts arbitrary: acc w)
     (simp_all add: case_prod_beta replicateConfigMap_rest split: option.splits)

lemma replicate_all_rows_keeps:
  "cm_Name cm \<notin> set (map cm_Name items) \<Longrightarrow>
   row_synced (mirror_Name m) (mirror_Namespace m) (rows w) cm \<Longrightarrow>
   row_synced (mirror_Name m) (mirror_Namespace m) (rows (snd (replicate_all e m items acc w))) cm"
proof (induction items arbitrary: acc w)
  case Nil
  then show ?case by simp
next
  case (Cons c items)
  let ?w1 = "snd (replicate_targets e c m (TargetNamespaces (Spec m)) [] w)"
  let ?w2 = "if database_enabled e m
             then snd (SaveConfigMap e c (mirror_Name m) (mirror_Namespace m) ?w1) else ?w1"
  from Cons.prems have ne: "cm_Name c \<noteq> cm_Name cm" and rest: "cm_Name cm \<notin> set (map cm_Name items)"
    by auto
  have "row_synced (mirror_Name m) (mirror_Namespace m) (rows ?w1) cm"
    using Cons.prems(2) by (simp add: replicate_targets_rows)
  then have "row_synced (mirror_Name m) (mirror_Namespace m) (rows ?w2) cm"
    using ne by (simp add: SaveConfigMap_keeps)
  then show ?case
    using Cons.IH [OF rest] by (simp add: case_prod_beta)
qed

lemma replicate_all_row_synced:
  assumes "no_faults e" and "database_enabled e m"
  shows "distinct (map cm_Name items) \<Longrightarrow> cm \<in> set items \<Longrightarrow>
    row_synced (mirror_Name m) (mirror_Namespace m) (rows (snd (replicate_all e m items acc w))) cm"
proof (induction items arbitrary: acc w)
  case Nil
  then show ?case by simp
next
  case (Cons c items)
  let ?w1 = "snd (replicate_targets e c m (TargetNamespaces (Spec m)) [] w)"
  let ?w2 = "snd (SaveConfigMap e c (mirror_Name m) (mirror_Namespace m) ?w1)"
  let ?acc = "acc @ [\<lparr>rcm_Name = cm_Name c, rcm_SourceNamespace = cm_Namespace c,
      rcm_Targets = fst (replicate_targets e c m (TargetNamespaces (Spec m)) [] w),
      rcm_LastSyncTime = Some (now e)\<rparr>]"
  have step: "snd (replicate_all e m (c # items) acc w) = snd (replicate_all e m items ?acc ?w2)"
    using assms(2) by (simp add: case_prod_beta)
  show ?case
  proof (cases "cm = c")
    case True
    from Cons.prems(1) have "cm_Name c \<notin> set (map cm_Name items)" by simp
    moreover have "row_synced (mirror_Name m) (mirror_Namespace m) (rows ?w2) c"
      using assms(1) by (rule SaveConfigMap_establishes)
    ultimately show ?thesis
      unfolding step True by (rule replicate_all_rows_keeps)
  next
    case False
    with Cons.prems have "cm \<in> set items" "distinct (map cm_Name items)" by simp_all
    then show ?thesis
      unfolding step using Cons.IH by blast
  qed
qed

lemma cleanup_orphans_row_synced:
  "cm_Name cm \<in> set current \<Longrightarrow>
   row_synced (mirror_Name m) (mirror_Namespace m) (rows w) cm \<Longrightarrow>
   row_synced (mirror_Name m) (mirror_Namespace m) (rows (cleanup_orphans e m current prev w)) cm"
proof (induction prev arbitrary: w)
  case Nil
  then show ?case by simp
next
  case (Cons p prev)
  show ?case
  proof (cases "rcm_Name p \<in> set current")
    case True
    with Cons show ?thesis by simp
  next
    case False
    let ?w1 = "delete_from_targets e (rcm_Name p) m (TargetNamespaces (Spec m)) w"
    let ?w2 = "if database_enabled e m
               then snd (DeleteConfigMapRow e (rcm_Name p) (rcm_SourceNamespace p)
                           (mirror_Name m) (mirror_Namespace m) ?w1)
               else ?w1"
    from False Cons.prems(1) have ne: "rcm_Name p \<noteq> cm_Name cm" by auto
    have "row_synced (mirror_Name m) (mirror_Namespace m) (rows ?w1) cm"
      using Cons.prems(2) by (simp add: delete_from_targets_rest)
    then have "row_synced (mirror_Name m) (mirror_Namespace m) (rows ?w2) cm"
      using ne by (simp add: DeleteConfigMapRow_keeps)
    then show ?thesis
      using False Cons.IH [OF Cons.prems(1)] by (simp add: Let_def)
  qed
qed

subsection \<open>Replicating again\<close>

lemma replicate_targets_second:
  assumes "no_faults e"
  shows "distinct (map cm_key (configmaps w)) \<Longrightarrow>
    (\<And>t. t \<in> set ts \<Longrightarrow> synced (ownerLabelValue owner) w cm t) \<Longrightarrow>
    configmaps (snd (replicate_targets e cm owner ts acc w)) = configmaps w"
proof (induction ts arbitrary: acc w)
  case Nil
  then show ?case by simp
next
  case (Cons t ts)
  let ?w1 = "snd (replicateConfigMap e cm t owner w)"
  have same: "configmaps ?w1 = configmaps w"
    using assms Cons.prems(1) Cons.prems(2) [of t] by (simp add: replicateConfigMap_id)
  have "configmaps (snd (replicate_targets e cm owner ts acc' ?w1)) = configmaps ?w1" for acc'
  proof (rule Cons.IH)
    show "distinct (map cm_key (configmaps ?w1))"
      using Cons.prems(1) by (simp add: same)
    show "synced (ownerLabelValue owner) ?w1 cm t'" if "t' \<in> set ts" for t'
      using Cons.prems(2) [of t'] that by (simp add: synced_def same)
  qed
  then show ?case
    by (simp add: case_prod_beta same split: option.splits)
qed

lemma replicate_all_second:
  assumes "no_faults e"
  shows "distinct (map cm_key (configmaps w)) \<Longrightarrow>
    (\<And>cm t. cm \<in> set items \<Longrightarrow> t \<in> set (TargetNamespaces (Spec m)) \<Longrightarrow>
        synced (ownerLabelValue m) w cm t) \<Longrightarrow>
    (\<And>cm. database_enabled e m \<Longrightarrow> cm \<in> set items \<Longrightarrow>
        row_synced (mirror_Name m) (mirror_Namespace m) (rows w) cm) \<Longrightarrow>
    configmaps (snd (replicate_all e m items acc w)) = configmaps w
    \<and> map row_sans_updated (rows (snd (replicate_all e m items acc w))) = map row_sans_updated (rows w)"
proof (induction items arbitrary: acc w)
  case Nil
  then show ?case by simp
next
  case (Cons c items)
  let ?ts = "TargetNamespaces (Spec m)"
  let ?w1 = "snd (replicate_targets e c m ?ts [] w)"
  let ?w2 = "if database_enabled e m
             then snd (SaveConfigMap e c (mirror_Name m) (mirror_Namespace m) ?w1) else ?w1"
  let ?acc = "acc @ [\<lparr>rcm_Name = cm_Name c, rcm_SourceNamespace = cm_Namespace c,
      rcm_Targets = fst (replicate_targets e c m ?ts [] w), rcm_LastSyncTime = Some (now e)\<rparr>]"
  have step: "snd (replicate_all e m (c # items) acc w) = snd (replicate_all e m items ?acc ?w2)"
    by (simp add: case_prod_beta)
  have c1: "configmaps ?w1 = configmaps w"
    using assms Cons.prems(1)
  proof (rule replicate_targets_second)
    show "synced (ownerLabelValue m) w c t" if "t \<in> set ?ts" for t
      using Cons.prems(2) [of c t] that by simp
  qed
  have r1: "rows ?w1 = rows w"
    by (rule replicate_targets_rows)
  have c2: "configmaps ?w2 = configmaps w"
    by (simp add: SaveConfigMap_frame c1)
  have r2: "map row_sans_updated (rows ?w2) = map row_sans_updated (rows w)"
  proof (cases "database_enabled e m")
    case True
    have "row_synced (mirror_Name m) (mirror_Namespace m) (rows ?w1) c"
      using Cons.prems(3) [OF True, of c] by (simp add: r1)
    with assms have "map row_sans_updated (rows (snd (SaveConfigMap e c (mirror_Name m) (mirror_Namespace m) ?w1)))
        = map row_sans_updated (rows ?w1)"
      by (rule SaveConfigMap_again)
    with True show ?thesis by (simp add: r1)
  next
    case False
    then show ?thesis by (simp add: r1)
  qed
  have ih: "configmaps (snd (replicate_all e m items ?acc ?w2)) = configmaps ?w2
    \<and> map row_sans_updated (rows (snd (replicate_all e m items ?acc ?w2))) = map row_sans_updated (rows ?w2)"
  proof (rule Cons.IH)
    show "distinct (map cm_key (configmaps ?w2))"
      using Cons.prems(1) by (simp only: c2)
    show "synced (ownerLabelValue m) ?w2 cm t" if "cm \<in> set items" "t \<in> set ?ts" for cm t
      using Cons.prems(2) [of cm t] that by (simp add: synced_def c2)
    show "row_synced (mirror_Name m) (mirror_Namespace m) (rows ?w2) cm"
      if "database_enabled e m" "cm \<in> set items" for cm
      using Cons.prems(3) [of cm] that row_synced_sans [OF r2] by simp
  qed
  show ?case
    unfolding step using ih c2 r2 by simp
qed

subsection \<open>Writing the status again\<close>

lemma SetStatusCondition_idem:
  assumes "cond_Type c2 = cond_Type c1" "cond_Status c2 = cond_Status c1"
    "cond_Reason c2 = cond_Reason c1" "cond_Message c2 = cond_Message c1"
    "cond_ObservedGeneration c2 = cond_ObservedGeneration c1"
  shows "SetStatusCondition (SetStatusCondition cs c1) c2 = SetStatusCondition cs c1"
  using assms by (induction cs) auto

lemma updateStatus_mirrors:
  assumes "cr_fault e VUpdateStatus = None"
    and "mirror_lookup (mirrors w) (mirror_Namespace m) (mirror_Name m) = Some old"
  shows "mirrors (updateStatus e m s r msg w)
    = map (put_status (mirror_Namespace m) (mirror_Name m) (status_to_write e m s r msg)) (mirrors w)"
  using assms
  by (simp add: updateStatus_def status_Update_def logged_def Let_def status_to_write_def
      put_status_def)

lemma mirror_lookup_put_status:
  "mirror_lookup (map (put_status ns n S) ms) ns' n' = map_option (put_status ns n S) (mirror_lookup ms ns' n')"
  unfolding mirror_lookup_def by (rule find_map_pres) (simp add: put_status_def mirror_at_def)

lemma put_status_twice:
  assumes "status_sans_times S2 = status_sans_times S1"
  shows "map mirror_sans_times (map (put_status ns n S2) (map (put_status ns n S1) ms))
    = map mirror_sans_times (map (put_status ns n S1) ms)"
  using assms by (induction ms) (auto simp: put_status_def mirror_sans_times_def mirror_at_def)

lemma tracked_fields:
  "mirror_Name (tracked e m R) = mirror_Name m"
  "mirror_Namespace (tracked e m R) = mirror_Namespace m"
  "mirror_Generation (tracked e m R) = mirror_Generation m"
  "st_ReplicatedConfigMaps (Status (tracked e m R)) = R"
  "st_Conditions (Status (tracked e m R)) = st_Conditions (Status m)"
  by (simp_all add: tracked_def probe_database_def split: option.splits)

lemma status_to_write_fields:
  "st_ReplicatedConfigMaps (status_to_write e m s r msg) = st_ReplicatedConfigMaps (Status m)"
  by (simp add: status_to_write_def)

lemma second_status_success:
  assumes "no_faults e1" "no_faults e2" "DBClient e2 = DBClient e1"
    and "map (\<lambda>r. r\<lparr>rcm_LastSyncTime := None\<rparr>) R2 = map (\<lambda>r. r\<lparr>rcm_LastSyncTime := None\<rparr>) R1"
  shows "status_sans_times
      (status_to_write e2 (tracked e2 (m\<lparr>Status := status_to_write e1 (tracked e1 m R1) s r msg\<rparr>) R2) s r msg)
    = status_sans_times (status_to_write e1 (tracked e1 m R1) s r msg)"
proof -
  have ping: "Ping e1 = None" "Ping e2 = None"
    using assms(1,2) by (simp_all add: Ping_def no_faults_simps)
  have idem: "SetStatusCondition (SetStatusCondition cs
        \<lparr>cond_Type = ''Ready'', cond_Status = s, cond_ObservedGeneration = mirror_Generation m,
         cond_LastTransitionTime = status_now e1, cond_Reason = r, cond_Message = msg\<rparr>)
        \<lparr>cond_Type = ''Ready'', cond_Status = s, cond_ObservedGeneration = mirror_Generation m,
         cond_LastTransitionTime = status_now e2, cond_Reason = r, cond_Message = msg\<rparr>
      = SetStatusCondition cs
        \<lparr>cond_Type = ''Ready'', cond_Status = s, cond_ObservedGeneration = mirror_Generation m,
         cond_LastTransitionTime = status_now e1, cond_Reason = r, cond_Message = msg\<rparr>" for cs
    by (rule SetStatusCondition_idem) simp_all
  show ?thesis
    using assms(3,4)
    by (cases "Status m")
       (simp add: status_to_write_def tracked_def probe_database_def database_enabled_def ping
          status_sans_times_def idem)
qed

lemma second_status_failure:
  "status_to_write e2 (m\<lparr>Status := status_to_write e1 m s r msg\<rparr>) s r msg = status_to_write e1 m s r msg"
proof -
  have idem: "SetStatusCondition (SetStatusCondition cs
        \<lparr>cond_Type = ''Ready'', cond_Status = s, cond_ObservedGeneration = mirror_Generation m,
         cond_LastTransitionTime = status_now e1, cond_Reason = r, cond_Message = msg\<rparr>)
        \<lparr>cond_Type = ''Ready'', cond_Status = s, cond_ObservedGeneration = mirror_Generation m,
         cond_LastTransitionTime = status_now e2, cond_Reason = r, cond_Message = msg\<rparr>
      = SetStatusCondition cs
        \<lparr>cond_Type = ''Ready'', cond_Status = s, cond_ObservedGeneration = mirror_Generation m,
         cond_LastTransitionTime = status_now e1, cond_Reason = r, cond_Message = msg\<rparr>" for cs
    by (rule SetStatusCondition_idem) simp_all
  show ?thesis
    by (simp add: status_to_write_def idem)
qed

lemma NewRequirement_cong:
  "valid_label_key e2 = valid_label_key e1 \<Longrightarrow> valid_label_value e2 = valid_label_value e1 \<Longrightarrow>
   NewRequirement e2 k op vals = NewRequirement e1 k op vals"
  by (simp add: NewRequirement_def)

lemma matchLabels_requirements_cong:
  assumes "valid_label_key e2 = valid_label_key e1" "valid_label_value e2 = valid_label_value e1"
  shows "matchLabels_requirements e2 kvs = matchLabels_requirements e1 kvs"
proof -
  have nr: "NewRequirement e2 k op vals = NewRequirement e1 k op vals" for k op vals
    using assms by (rule NewRequirement_cong)
  show ?thesis
    by (induction kvs) (auto simp: nr split: sum.splits)
qed

lemma matchExpressions_requirements_cong:
  assumes "valid_label_key e2 = valid_label_key e1" "valid_label_value e2 = valid_label_value e1"
  shows "matchExpressions_requirements e2 exprs = matchExpressions_requirements e1 exprs"
proof -
  have nr: "NewRequirement e2 k op vals = NewRequirement e1 k op vals" for k op vals
    using assms by (rule NewRequirement_cong)
  show ?thesis
    by (induction exprs) (auto simp: nr split: sum.splits)
qed

lemma LabelSelectorAsSelector_cong:
  assumes "valid_label_key e2 = valid_label_key e1" "valid_label_value e2 = valid_label_value e1"
  shows "LabelSelectorAsSelector e2 sel = LabelSelectorAsSelector e1 sel"
proof -
  have "matchLabels_requirements e2 kvs = matchLabels_requirements e1 kvs" for kvs
    using assms by (rule matchLabels_requirements_cong)
  moreover have "matchExpressions_requirements e2 exprs = matchExpressions_requirements e1 exprs" for exprs
    using assms by (rule matchExpressions_requirements_cong)
  ultimately show ?thesis
    by (simp add: LabelSelectorAsSelector_def cong: case_congs)
qed

subsection \<open>Two consecutive passes\<close>

lemma reconcile_active_success:
  assumes "no_faults e" and "LabelSelectorAsSelector e (Selector (Spec m)) = Inr p"
    and "items = filter (\<lambda>c. cm_Namespace c = mirror_Namespace m \<and> p (cm_Labels c)) (configmaps w)"
  shows "reconcile_active e m w =
    ((\<lparr>RequeueAfter = 300000000000\<rparr>, None),
     updateStatus e (tracked e m (map (full_entry e m) items)) ConditionTrue ''ReconcileSuccess''
       ''Successfully replicated ConfigMaps''
       (cleanup_orphans e m (map cm_Name items) (st_ReplicatedConfigMaps (Status m))
          (snd (replicate_all e m items [] w))))"
  using assms replicate_all_full [OF assms(1), of m items "[]" w]
  by (simp add: reconcile_active_def client_List_def no_faults_simps case_prod_beta Let_def tracked_def)

lemma reconcile_active_invalid:
  assumes "LabelSelectorAsSelector e (Selector (Spec m)) = Inl err"
  shows "reconcile_active e m w =
    ((\<lparr>RequeueAfter = 0\<rparr>, Some err), updateStatus e m ConditionFalse ''InvalidSelector'' (Error err) w)"
  using assms by (simp add: reconcile_active_def)

lemma Reconcile_active:
  assumes "mirror_Get e w req = Inr m" "IsZero (mirror_DeletionTimestamp m)"
    "ContainsFinalizer m finalizerName"
  shows "Reconcile e req w = reconcile_active e m w"
  using assms by (simp add: Reconcile_def)

lemma filter_listing:
  "filter (\<lambda>c. cm_Namespace c = ns \<and> P c) s = filter P (filter (\<lambda>c. cm_Namespace c = ns) s)"
  by (induction s) auto

lemma reconcile_active_twice:
  assumes nf1: "no_faults e1" and nf2: "no_faults e2"
    and cfg: "DBClient e2 = DBClient e1" "valid_label_key e2 = valid_label_key e1"
      "valid_label_value e2 = valid_label_value e1"
    and look: "mirror_lookup (mirrors w) (mirror_Namespace m) (mirror_Name m) = Some m"
    and active: "IsZero (mirror_DeletionTimestamp m)"
    and fin: "ContainsFinalizer m finalizerName"
    and self: "mirror_Namespace m \<notin> set (TargetNamespaces (Spec m))"
    and store: "distinct (map cm_key (configmaps w))"
    and w1: "w1 = snd (reconcile_active e1 m w)"
    and w2: "w2 = snd (Reconcile e2 (mirror_Namespace m, mirror_Name m) w1)"
  shows "fst (Reconcile e2 (mirror_Namespace m, mirror_Name m) w1) = fst (reconcile_active e1 m w)
    \<and> configmaps w2 = configmaps w1
    \<and> map row_sans_updated (rows w2) = map row_sans_updated (rows w1)
    \<and> map mirror_sans_times (mirrors w2) = map mirror_sans_times (mirrors w1)"
proof (cases "LabelSelectorAsSelector e1 (Selector (Spec m))")
  case (Inl err)
  let ?ns = "mirror_Namespace m" and ?n = "mirror_Name m"
  define S1 where "S1 = status_to_write e1 m ConditionFalse ''InvalidSelector'' (Error err)"
  define m1 where "m1 = m\<lparr>Status := S1\<rparr>"
  have run1: "reconcile_active e1 m w =
      ((\<lparr>RequeueAfter = 0\<rparr>, Some err), updateStatus e1 m ConditionFalse ''InvalidSelector'' (Error err) w)"
    using Inl by (rule reconcile_active_invalid)
  have cr1: "cr_fault e1 VUpdateStatus = None" and cr2: "cr_fault e2 VUpdateStatus = None"
    and g2: "cr_fault e2 VGet = None"
    using nf1 nf2 by (simp_all add: no_faults_simps)
  have c1: "configmaps w1 = configmaps w" "rows w1 = rows w"
    and mi1: "mirrors w1 = map (put_status ?ns ?n S1) (mirrors w)"
    using updateStatus_mirrors [OF cr1 look]
    by (simp_all add: w1 run1 updateStatus_frame S1_def)
  have look1: "mirror_lookup (mirrors w1) ?ns ?n = Some m1"
    by (simp add: mi1 mirror_lookup_put_status look put_status_def mirror_at_def m1_def)
  have get2: "mirror_Get e2 w1 (?ns, ?n) = Inr m1"
    by (simp add: mirror_Get_def g2 look1)
  have f1: "mirror_Namespace m1 = ?ns" "mirror_Name m1 = ?n" "Spec m1 = Spec m"
    "IsZero (mirror_DeletionTimestamp m1)" "ContainsFinalizer m1 finalizerName"
    using active fin by (simp_all add: m1_def ContainsFinalizer_def)
  have sel2: "LabelSelectorAsSelector e2 (Selector (Spec m1)) = Inl err"
    using Inl LabelSelectorAsSelector_cong [OF cfg(2,3)] by (simp add: f1)
  have run2: "Reconcile e2 (?ns, ?n) w1 =
      ((\<lparr>RequeueAfter = 0\<rparr>, Some err), updateStatus e2 m1 ConditionFalse ''InvalidSelector'' (Error err) w1)"
    using Reconcile_active [OF get2 f1(4,5)] reconcile_active_invalid [OF sel2] by simp
  have S2: "status_to_write e2 m1 ConditionFalse ''InvalidSelector'' (Error err) = S1"
    unfolding m1_def S1_def by (rule second_status_failure)
  have look1': "mirror_lookup (mirrors w1) (mirror_Namespace m1) (mirror_Name m1) = Some m1"
    using look1 by (simp add: f1)
  have mi2: "mirrors w2 = map (put_status ?ns ?n S1) (mirrors w1)"
    using updateStatus_mirrors [OF cr2 look1'] by (simp add: w2 run2 S2 f1)
  have "map mirror_sans_times (mirrors w2) = map mirror_sans_times (mirrors w1)"
    unfolding mi2 mi1 by (rule put_status_twice) simp
  then show ?thesis
    by (simp add: w2 run2 run1 updateStatus_frame)
next
  case (Inr p)
  let ?ns = "mirror_Namespace m" and ?n = "mirror_Name m"
  let ?ts = "TargetNamespaces (Spec m)" and ?v = "ownerLabelValue m"
  define items where "items = filter (\<lambda>c. cm_Namespace c = ?ns \<and> p (cm_Labels c)) (configmaps w)"
  define R1 where "R1 = map (full_entry e1 m) items"
  define wa where "wa = snd (replicate_all e1 m items [] w)"
  define wb where "wb = cleanup_orphans e1 m (map cm_Name items) (st_ReplicatedConfigMaps (Status m)) wa"
  define S1 where "S1 = status_to_write e1 (tracked e1 m R1) ConditionTrue ''ReconcileSuccess''
      ''Successfully replicated ConfigMaps''"
  define m1 where "m1 = m\<lparr>Status := S1\<rparr>"
  have cr1: "cr_fault e1 VUpdateStatus = None" and cr2: "cr_fault e2 VUpdateStatus = None"
    and g2: "cr_fault e2 VGet = None"
    using nf1 nf2 by (simp_all add: no_faults_simps)
  have run1: "reconcile_active e1 m w =
      ((\<lparr>RequeueAfter = 300000000000\<rparr>, None),
       updateStatus e1 (tracked e1 m R1) ConditionTrue ''ReconcileSuccess''
         ''Successfully replicated ConfigMaps'' wb)"
    unfolding R1_def wb_def wa_def using nf1 Inr items_def by (rule reconcile_active_success)
  have mirrors_wb: "mirrors wb = mirrors w"
    by (simp add: wb_def wa_def cleanup_orphans_mirrors replicate_all_mirrors)
  have lookb: "mirror_lookup (mirrors wb) (mirror_Namespace (tracked e1 m R1)) (mirror_Name (tracked e1 m R1))
      = Some m"
    by (simp add: mirrors_wb tracked_fields look)
  have c1: "configmaps w1 = configmaps wb" "rows w1 = rows wb"
    and mi1: "mirrors w1 = map (put_status ?ns ?n S1) (mirrors w)"
    using updateStatus_mirrors [OF cr1 lookb]
    by (simp_all add: w1 run1 updateStatus_frame S1_def tracked_fields mirrors_wb)
  have look1: "mirror_lookup (mirrors w1) ?ns ?n = Some m1"
    by (simp add: mi1 mirror_lookup_put_status look put_status_def mirror_at_def m1_def)
  have get2: "mirror_Get e2 w1 (?ns, ?n) = Inr m1"
    by (simp add: mirror_Get_def g2 look1)
  have f1: "mirror_Namespace m1 = ?ns" "mirror_Name m1 = ?n" "Spec m1 = Spec m"
    "IsZero (mirror_DeletionTimestamp m1)" "ContainsFinalizer m1 finalizerName"
    "ownerLabelValue m1 = ?v" "mirror_Generation m1 = mirror_Generation m"
    using active fin by (simp_all add: m1_def ContainsFinalizer_def ownerLabelValue_def)
  have db: "database_enabled e2 m1 = database_enabled e1 m"
    by (simp add: database_enabled_def f1 cfg)
  have prev1: "st_ReplicatedConfigMaps (Status m1) = R1"
    by (simp add: m1_def S1_def status_to_write_fields tracked_fields)
  have sel2: "LabelSelectorAsSelector e2 (Selector (Spec m1)) = Inr p"
    using Inr LabelSelectorAsSelector_cong [OF cfg(2,3)] by (simp add: f1)
  have names: "distinct (map cm_Name items)"
    unfolding items_def using store by (rule distinct_listed_names)
  have src: "filter (\<lambda>c. cm_Namespace c = ?ns) (configmaps w1)
      = filter (\<lambda>c. cm_Namespace c = ?ns) (configmaps w)"
    using self by (simp add: c1 wb_def wa_def cleanup_orphans_frame_ns replicate_all_frame_ns)
  have items2: "items = filter (\<lambda>c. cm_Namespace c = mirror_Namespace m1 \<and> p (cm_Labels c)) (configmaps w1)"
    unfolding items_def f1 filter_listing [of ?ns] src ..
  have dist1: "distinct (map cm_key (configmaps w1))"
    using store by (simp add: c1 wb_def wa_def cleanup_orphans_distinct replicate_all_distinct)
  have synced1: "synced (ownerLabelValue m1) w1 cm t"
    if "cm \<in> set items" "t \<in> set (TargetNamespaces (Spec m1))" for cm t
  proof -
    from that have t: "t \<in> set ?ts" by (simp add: f1)
    have "synced ?v wa cm t"
      unfolding wa_def using nf1 names that(1) t by (rule replicate_all_synced)
    moreover have "cm_lookup (configmaps wb) t (cm_Name cm) = cm_lookup (configmaps wa) t (cm_Name cm)"
      unfolding wb_def using that(1) by (intro cleanup_orphans_other) simp
    ultimately show ?thesis
      by (simp add: synced_def c1 f1)
  qed
  have rows1: "row_synced (mirror_Name m1) (mirror_Namespace m1) (rows w1) cm"
    if "database_enabled e2 m1" "cm \<in> set items" for cm
  proof -
    from that(1) have en: "database_enabled e1 m" by (simp add: db)
    have "row_synced ?n ?ns (rows wa) cm"
      unfolding wa_def using nf1 en names that(2) by (rule replicate_all_row_synced)
    then have "row_synced ?n ?ns (rows wb) cm"
      unfolding wb_def using that(2) by (intro cleanup_orphans_row_synced) simp_all
    then show ?thesis by (simp add: c1 f1)
  qed
  define wc where "wc = snd (replicate_all e2 m1 items [] w1)"
  define R2 where "R2 = map (full_entry e2 m1) items"
  have second: "configmaps wc = configmaps w1 \<and> map row_sans_updated (rows wc) = map row_sans_updated (rows w1)"
    unfolding wc_def using nf2 dist1 synced1 rows1 by (rule replicate_all_second)
  have noop: "cleanup_orphans e2 m1 (map cm_Name items) (st_ReplicatedConfigMaps (Status m1)) wc = wc"
    by (rule cleanup_orphans_noop) (simp add: prev1 R1_def list_all_iff full_entry_def)
  have run2: "Reconcile e2 (?ns, ?n) w1 =
      ((\<lparr>RequeueAfter = 300000000000\<rparr>, None),
       updateStatus e2 (tracked e2 m1 R2) ConditionTrue ''ReconcileSuccess''
         ''Successfully replicated ConfigMaps'' wc)"
    using Reconcile_active [OF get2 f1(4,5)] reconcile_active_success [OF nf2 sel2 items2]
    by (simp add: noop [unfolded wc_def] wc_def R2_def)
  have lookc: "mirror_lookup (mirrors wc) (mirror_Namespace (tracked e2 m1 R2)) (mirror_Name (tracked e2 m1 R2))
      = Some m1"
    by (simp add: wc_def replicate_all_mirrors tracked_fields f1 look1)
  define S2 where "S2 = status_to_write e2 (tracked e2 m1 R2) ConditionTrue ''ReconcileSuccess''
      ''Successfully replicated ConfigMaps''"
  have mi2: "mirrors w2 = map (put_status ?ns ?n S2) (mirrors w1)"
    using updateStatus_mirrors [OF cr2 lookc]
    by (simp add: w2 run2 S2_def tracked_fields f1 wc_def replicate_all_mirrors)
  have strip: "map (\<lambda>r. r\<lparr>rcm_LastSyncTime := None\<rparr>) R2 = map (\<lambda>r. r\<lparr>rcm_LastSyncTime := None\<rparr>) R1"
    by (simp add: R1_def R2_def full_entry_def f1)
  have S: "status_sans_times S2 = status_sans_times S1"
    unfolding S2_def m1_def S1_def
    using nf1 nf2 cfg(1) strip by (rule second_status_success)
  have "map mirror_sans_times (mirrors w2) = map mirror_sans_times (mirrors w1)"
    unfolding mi2 mi1 using S by (rule put_status_twice)
  then show ?thesis
    using second by (simp add: w2 run2 run1 updateStatus_frame)
qed

lemma Reconcile_added:
  assumes nf: "no_faults e" and get: "mirror_Get e w req = Inr m"
    and active: "IsZero (mirror_DeletionTimestamp m)"
    and nofin: "\<not> ContainsFinalizer m finalizerName"
  shows "Reconcile e req w = reconcile_active e (AddFinalizer m finalizerName)
           (snd (mirror_Update e (AddFinalizer m finalizerName) w))"
    and "mirror_lookup (mirrors (snd (mirror_Update e (AddFinalizer m finalizerName) w)))
           (mirror_Namespace m) (mirror_Name m) = Some (AddFinalizer m finalizerName)"
    and "configmaps (snd (mirror_Update e (AddFinalizer m finalizerName) w)) = configmaps w"
proof -
  let ?m = "AddFinalizer m finalizerName"
  let ?f = "\<lambda>x. if mirror_at (mirror_Namespace m) (mirror_Name m) x then ?m\<lparr>Status := Status x\<rparr> else x"
  from mirror_Get_Inr [OF get]
  have look: "mirror_lookup (mirrors w) (mirror_Namespace m) (mirror_Name m) = Some m"
    by simp
  have fields: "mirror_Namespace ?m = mirror_Namespace m" "mirror_Name ?m = mirror_Name m"
    "mirror_DeletionTimestamp ?m = mirror_DeletionTimestamp m" "Status ?m = Status m"
    by (simp_all add: AddFinalizer_def)
  have upd: "mirror_Update e ?m w =
      (None, (logged (UpdateMirror (mirror_Namespace m) (mirror_Name m)) w)
               \<lparr>mirrors := map ?f (mirrors w)\<rparr>)"
    using nf look active
    by (simp add: mirror_Update_def fields logged_def Let_def no_faults_simps)
  show "Reconcile e req w = reconcile_active e ?m (snd (mirror_Update e ?m w))"
    using get active nofin by (simp add: Reconcile_def upd)
  have "mirror_lookup (map ?f (mirrors w)) (mirror_Namespace m) (mirror_Name m)
      = map_option ?f (mirror_lookup (mirrors w) (mirror_Namespace m) (mirror_Name m))"
    unfolding mirror_lookup_def by (rule find_map_pres) (simp add: mirror_at_def fields)
  moreover have "?m\<lparr>Status := Status m\<rparr> = ?m"
    using fields(4) by (cases ?m) simp
  ultimately show "mirror_lookup (mirrors (snd (mirror_Update e ?m w)))
      (mirror_Namespace m) (mirror_Name m) = Some ?m"
    by (simp add: upd logged_def look mirror_at_def)
  show "configmaps (snd (mirror_Update e ?m w)) = configmaps w"
    by (simp add: upd logged_def)
qed

text \<open>
  When every request to the object store and to the database succeeds in both passes, the
  ConfigMirror is not being deleted, its own namespace is not one of its target namespaces
  and the store holds one ConfigMap for each namespace and name, the second pass returns
  what the first returns and leaves the same ConfigMaps, the same rows apart from
  \<^verbatim>\<open>updated_at\<close>, and the same ConfigMirrors apart from the timestamps of their status.
\<close>

lemma two_passes_agree_apart_from_timestamps:
  assumes nf1: "no_faults e1" and nf2: "no_faults e2"
    and cfg: "DBClient e2 = DBClient e1" "valid_label_key e2 = valid_label_key e1"
      "valid_label_value e2 = valid_label_value e1"
    and get: "mirror_Get e1 w req = Inr m"
    and active: "IsZero (mirror_DeletionTimestamp m)"
    and self: "mirror_Namespace m \<notin> set (TargetNamespaces (Spec m))"
    and store: "distinct (map cm_key (configmaps w))"
  shows "fst (Reconcile e2 req (snd (Reconcile e1 req w))) = fst (Reconcile e1 req w)
    \<and> configmaps (snd (Reconcile e2 req (snd (Reconcile e1 req w)))) = configmaps (snd (Reconcile e1 req w))
    \<and> map row_sans_updated (rows (snd (Reconcile e2 req (snd (Reconcile e1 req w)))))
        = map row_sans_updated (rows (snd (Reconcile e1 req w)))
    \<and> map mirror_sans_times (mirrors (snd (Reconcile e2 req (snd (Reconcile e1 req w)))))
        = map mirror_sans_times (mirrors (snd (Reconcile e1 req w)))"
proof -
  from mirror_Get_Inr [OF get]
  have look: "mirror_lookup (mirrors w) (mirror_Namespace m) (mirror_Name m) = Some m"
    and req: "req = (mirror_Namespace m, mirror_Name m)"
    by simp_all
  show ?thesis
  proof (cases "ContainsFinalizer m finalizerName")
    case True
    have run: "Reconcile e1 req w = reconcile_active e1 m w"
      using get active True by (rule Reconcile_active)
    show ?thesis
      using reconcile_active_twice [OF nf1 nf2 cfg look active True self store refl refl]
      unfolding run unfolding req .
  next
    case False
    let ?m = "AddFinalizer m finalizerName"
    let ?w = "snd (mirror_Update e1 ?m w)"
    have fields: "mirror_Namespace ?m = mirror_Namespace m" "mirror_Name ?m = mirror_Name m"
      "mirror_DeletionTimestamp ?m = mirror_DeletionTimestamp m" "Spec ?m = Spec m"
      "ContainsFinalizer ?m finalizerName"
      by (simp_all add: AddFinalizer_def ContainsFinalizer_def)
    note added = Reconcile_added [OF nf1 get active False]
    have look0: "mirror_lookup (mirrors ?w) (mirror_Namespace ?m) (mirror_Name ?m) = Some ?m"
      using added(2) by (simp add: fields)
    have active0: "IsZero (mirror_DeletionTimestamp ?m)"
      using active by (simp add: fields)
    have self0: "mirror_Namespace ?m \<notin> set (TargetNamespaces (Spec ?m))"
      using self by (simp add: fields)
    have store0: "distinct (map cm_key (configmaps ?w))"
      using store by (simp add: added(3))
    show ?thesis
      using reconcile_active_twice [OF nf1 nf2 cfg look0 active0 fields(5) self0 store0 refl refl]
      unfolding added(1) fields(1,2) unfolding req .
  qed
qed

lemma two_passes_agree_on_the_example:
  "no_faults env_ok
   \<and> mirror_Get env_ok world_plain (''app-source'', ''app-config-mirror'') = Inr (mirror_in ''app-source'')
   \<and> IsZero (mirror_DeletionTimestamp (mirror_in ''app-source''))
   \<and> mirror_Namespace (mirror_in ''app-source'') \<notin> set (TargetNamespaces (Spec (mirror_in ''app-source'')))
   \<and> distinct (map cm_key (configmaps world_plain))
   \<and> fst (Reconcile env_ok (''app-source'', ''app-config-mirror'')
        (snd (Reconcile env_ok (''app-source'', ''app-config-mirror'') world_plain)))
      = fst (Reconcile env_ok (''app-source'', ''app-config-mirror'') world_plain)
   \<and> configmaps (snd (Reconcile env_ok (''app-source'', ''app-config-mirror'')
        (snd (Reconcile env_ok (''app-source'', ''app-config-mirror'') world_plain))))
      = configmaps (snd (Reconcile env_ok (''app-source'', ''app-config-mirror'') world_plain))
   \<and> map row_sans_updated (rows (snd (Reconcile env_ok (''app-source'', ''app-config-mirror'')
        (snd (Reconcile env_ok (''app-source'', ''app-config-mirror'') world_plain)))))
      = map row_sans_updated (rows (snd (Reconcile env_ok (''app-source'', ''app-config-mirror'') world_plain)))
   \<and> map mirror_sans_times (mirrors (snd (Reconcile env_ok (''app-source'', ''app-config-mirror'')
        (snd (Reconcile env_ok (''app-source'', ''app-config-mirror'') world_plain)))))
      = map mirror_sans_times (mirrors (snd (Reconcile env_ok (''app-source'', ''app-config-mirror'') world_plain)))"
proof -
  have nf: "no_faults env_ok"
    by (simp add: no_faults_def env_ok_def)
  have get: "mirror_Get env_ok world_plain (''app-source'', ''app-config-mirror'') = Inr (mirror_in ''app-source'')"
    by (simp add: mirror_Get_def mirror_lookup_def mirror_at_def world_plain_def env_ok_def mirror_in_def)
  have active: "IsZero (mirror_DeletionTimestamp (mirror_in ''app-source''))"
    and self: "mirror_Namespace (mirror_in ''app-source'') \<notin> set (TargetNamespaces (Spec (mirror_in ''app-source'')))"
    by (simp_all add: IsZero_def mirror_in_def)
  have store: "distinct (map cm_key (configmaps world_plain))"
    by (simp add: world_plain_def)
  from two_passes_agree_apart_from_timestamps [OF nf nf refl refl refl get active self store] nf get active self store
  show ?thesis by simp
qed

section \<open>The copies that a pass writes\<close>

lemma replicateConfigMap_success:
  assumes "fst (replicateConfigMap e cm t owner w) = None"
  shows "copied (ownerLabelValue owner) (snd (replicateConfigMap e cm t owner w)) cm t"
proof (cases "client_Get e w t (cm_Name cm)")
  case (Inl err)
  with assms have nf: "err = NotFound"
    by (auto simp: replicateConfigMap_def Let_def split: if_splits)
  with Inl assms show ?thesis
    by (auto simp: replicateConfigMap_def client_Create_def logged_def Let_def copied_def synced_def
        writes_copy_def cm_lookup_append cm_at_def split: option.splits)
next
  case (Inr existing)
  then have at: "cm_Namespace existing = t" "cm_Name existing = cm_Name cm"
    by (auto dest!: client_Get_Inr cm_lookup_Some_at)
  from Inr have look: "cm_lookup (configmaps w) t (cm_Name cm) = Some existing"
    by (rule client_Get_Inr)
  let ?c = "existing\<lparr>cm_Data := cm_Data cm, cm_BinaryData := cm_BinaryData cm,
      cm_Labels := (cm_Labels existing)(ownerLabel \<mapsto> ownerLabelValue owner)\<rparr>"
  have run: "replicateConfigMap e cm t owner w = client_Update e ?c w"
    using Inr by (simp add: replicateConfigMap_def Let_def index_def)
  from assms have ok: "cm_fault e VUpdate t (cm_Name cm) = None"
    unfolding run by (auto simp: client_Update_def Let_def at split: option.splits)
  have w': "snd (client_Update e ?c w) = (logged (UpdateConfigMap ?c) w)\<lparr>configmaps :=
      map (\<lambda>x. if cm_at t (cm_Name cm) x then ?c else x) (configmaps w)\<rparr>"
    using ok look by (simp add: client_Update_def Let_def at logged_def)
  have "cm_lookup (map (\<lambda>x. if cm_at t (cm_Name cm) x then ?c else x) (configmaps w)) t (cm_Name cm)
      = Some ?c"
    using _ _ look by (rule cm_lookup_update_same) (simp_all add: at)
  then have "synced (ownerLabelValue owner) (snd (client_Update e ?c w)) cm t"
    unfolding w' by (simp add: synced_def logged_def)
  moreover have "list_ex (writes_copy (ownerLabelValue owner) cm t) (calls (snd (client_Update e ?c w)))"
    unfolding w' by (simp add: logged_def writes_copy_def cm_at_def at)
  ultimately show ?thesis
    unfolding run by (simp add: copied_def)
qed

lemma replicateConfigMap_calls:
  "set (calls w) \<subseteq> set (calls (snd (replicateConfigMap e cm t owner w)))"
  by (auto simp: replicateConfigMap_def client_Create_rest client_Update_rest Let_def split: sum.splits)

lemma replicate_targets_calls:
  "set (calls w) \<subseteq> set (calls (snd (replicate_targets e cm owner ts acc w)))"
proof (induction ts arbitrary: acc w)
  case Nil
  then show ?case by simp
next
  case (Cons t ts)
  let ?w1 = "snd (replicateConfigMap e cm t owner w)"
  have "set (calls w) \<subseteq> set (calls ?w1)"
    by (rule replicateConfigMap_calls)
  also have "\<dots> \<subseteq> set (calls (snd (replicate_targets e cm owner (t # ts) acc w)))"
    by (simp add: case_prod_beta Cons.IH split: option.splits)
  finally show ?case .
qed

lemma replicate_all_calls:
  "set (calls w) \<subseteq> set (calls (snd (replicate_all e m items acc w)))"
proof (induction items arbitrary: acc w)
  case Nil
  then show ?case by simp
next
  case (Cons c items)
  let ?w1 = "snd (replicate_targets e c m (TargetNamespaces (Spec m)) [] w)"
  let ?w2 = "if database_enabled e m
             then snd (SaveConfigMap e c (mirror_Name m) (mirror_Namespace m) ?w1) else ?w1"
  have "set (calls w) \<subseteq> set (calls ?w1)"
    by (rule replicate_targets_calls)
  also have "calls ?w1 = calls ?w2"
    by (simp add: SaveConfigMap_frame)
  also have "set (calls ?w2) \<subseteq> set (calls (snd (replicate_all e m (c # items) acc w)))"
    using Cons.IH [where w = ?w2] by (simp add: case_prod_beta)
  finally show ?case .
qed

lemma cleanup_orphans_calls:
  "set (calls w) \<subseteq> set (calls (cleanup_orphans e m current prev w))"
proof (induction prev arbitrary: w)
  case Nil
  then show ?case by simp
next
  case (Cons p prev)
  show ?case
  proof (cases "rcm_Name p \<in> set current")
    case True
    with Cons show ?thesis by simp
  next
    case False
    let ?w1 = "delete_from_targets e (rcm_Name p) m (TargetNamespaces (Spec m)) w"
    let ?w2 = "if database_enabled e m
               then snd (DeleteConfigMapRow e (rcm_Name p) (rcm_SourceNamespace p)
                           (mirror_Name m) (mirror_Namespace m) ?w1)
               else ?w1"
    obtain new where "calls ?w1 = calls w @ new"
      using delete_from_targets_calls by blast
    then have "set (calls w) \<subseteq> set (calls ?w1)" by simp
    also have "calls ?w1 = calls ?w2"
      by (simp add: DeleteConfigMapRow_frame)
    also have "set (calls ?w2) \<subseteq> set (calls (cleanup_orphans e m current (p # prev) w))"
      using False Cons.IH [where w = ?w2] by (simp add: Let_def)
    finally show ?thesis .
  qed
qed

lemma copied_mono:
  assumes "copied v w cm t"
    and "cm_lookup (configmaps w') t (cm_Name cm) = cm_lookup (configmaps w) t (cm_Name cm)"
    and "set (calls w) \<subseteq> set (calls w')"
  shows "copied v w' cm t"
  using assms by (auto simp: copied_def synced_def list_ex_iff)

lemma replicate_targets_other_ns:
  "t \<notin> set ts \<Longrightarrow>
   cm_lookup (configmaps (snd (replicate_targets e cm owner ts acc w))) t n = cm_lookup (configmaps w) t n"
  by (induction ts arbitrary: acc w)
     (auto simp: case_prod_beta replicateConfigMap_other split: option.splits)

lemma replicate_targets_success:
  "distinct ts \<Longrightarrow> t \<in> set ts \<Longrightarrow> fst (replicateConfigMap e cm t owner w) = None \<Longrightarrow>
   copied (ownerLabelValue owner) (snd (replicate_targets e cm owner ts acc w)) cm t"
proof (induction ts arbitrary: acc w)
  case Nil
  then show ?case by simp
next
  case (Cons t' ts)
  let ?w1 = "snd (replicateConfigMap e cm t' owner w)"
  have step: "snd (replicate_targets e cm owner (t' # ts) acc w)
      = snd (replicate_targets e cm owner ts
               (if fst (replicateConfigMap e cm t' owner w) = None then acc @ [t'] else acc) ?w1)"
    by (simp add: case_prod_beta split: option.splits)
  show ?case
  proof (cases "t' = t")
    case True
    with Cons.prems have "t \<notin> set ts" by simp
    then have look: "cm_lookup (configmaps (snd (replicate_targets e cm owner ts
          (if fst (replicateConfigMap e cm t' owner w) = None then acc @ [t'] else acc) ?w1))) t (cm_Name cm)
        = cm_lookup (configmaps ?w1) t (cm_Name cm)"
      by (rule replicate_targets_other_ns)
    have "copied (ownerLabelValue owner) ?w1 cm t"
      using Cons.prems(3) unfolding True by (rule replicateConfigMap_success)
    then show ?thesis
      unfolding step using look replicate_targets_calls by (rule copied_mono)
  next
    case False
    with Cons.prems have t: "t \<in> set ts" and d: "distinct ts" by simp_all
    from False have "(t, cm_Name cm) \<noteq> (t', cm_Name cm)" by simp
    then have "fst (replicateConfigMap e cm t owner ?w1) = fst (replicateConfigMap e cm t owner w)"
      by (intro replicateConfigMap_depends replicateConfigMap_other)
    with Cons.prems(3) have "fst (replicateConfigMap e cm t owner ?w1) = None" by simp
    with d t show ?thesis
      unfolding step by (rule Cons.IH)
  qed
qed

lemma replicate_all_success:
  "distinct (map cm_Name items) \<Longrightarrow> distinct (TargetNamespaces (Spec m)) \<Longrightarrow> cm \<in> set items \<Longrightarrow>
   t \<in> set (rcm_Targets (recorded_entry e m w cm)) \<Longrightarrow>
   copied (ownerLabelValue m) (snd (replicate_all e m items acc w)) cm t"
proof (induction items arbitrary: acc w)
  case Nil
  then show ?case by simp
next
  case (Cons c items)
  let ?ts = "TargetNamespaces (Spec m)"
  let ?w1 = "snd (replicate_targets e c m ?ts [] w)"
  let ?w2 = "if database_enabled e m
             then snd (SaveConfigMap e c (mirror_Name m) (mirror_Namespace m) ?w1) else ?w1"
  let ?acc = "acc @ [\<lparr>rcm_Name = cm_Name c, rcm_SourceNamespace = cm_Namespace c,
      rcm_Targets = fst (replicate_targets e c m ?ts [] w), rcm_LastSyncTime = Some (now e)\<rparr>]"
  have step: "snd (replicate_all e m (c # items) acc w) = snd (replicate_all e m items ?acc ?w2)"
    by (simp add: case_prod_beta)
  have w2: "configmaps ?w2 = configmaps ?w1" "calls ?w2 = calls ?w1"
    by (simp_all add: SaveConfigMap_frame)
  from Cons.prems have d: "distinct (map cm_Name items)" by simp
  show ?case
  proof (cases "cm = c")
    case True
    from Cons.prems(4) have t: "t \<in> set ?ts" "fst (replicateConfigMap e c t m w) = None"
      by (simp_all add: recorded_entry_def True)
    have "copied (ownerLabelValue m) ?w1 c t"
      using Cons.prems(2) t by (rule replicate_targets_success)
    then have "copied (ownerLabelValue m) ?w2 c t"
      by (rule copied_mono) (simp_all add: w2)
    moreover from Cons.prems(1) have "cm_Name c \<notin> set (map cm_Name items)" by simp
    then have "cm_lookup (configmaps (snd (replicate_all e m items ?acc ?w2))) t (cm_Name c)
        = cm_lookup (configmaps ?w2) t (cm_Name c)"
      by (rule replicate_all_other)
    ultimately show ?thesis
      unfolding step True using replicate_all_calls by (rule copied_mono)
  next
    case False
    with Cons.prems have mem: "cm \<in> set items" by simp
    then have "cm_Name cm \<in> set (map cm_Name items)" by simp
    with Cons.prems(1) have ne: "cm_Name cm \<noteq> cm_Name c" by auto
    have "recorded_entry e m ?w2 cm = recorded_entry e m w cm"
    proof (rule recorded_entry_cong)
      fix t'
      show "cm_lookup (configmaps ?w2) t' (cm_Name cm) = cm_lookup (configmaps w) t' (cm_Name cm)"
        unfolding w2 using ne by (rule replicate_targets_other)
    qed
    with Cons.prems(4) have "t \<in> set (rcm_Targets (recorded_entry e m ?w2 cm))" by simp
    with d Cons.prems(2) mem show ?thesis
      unfolding step by (rule Cons.IH)
  qed
qed

lemma replicateConfigMap_owner:
  "ownerLabelValue owner' = ownerLabelValue owner \<Longrightarrow>
   replicateConfigMap e cm t owner' w = replicateConfigMap e cm t owner w"
  by (simp add: replicateConfigMap_def)

lemma mirror_Update_frame:
  "configmaps (snd (mirror_Update e m w)) = configmaps w"
  "rows (snd (mirror_Update e m w)) = rows w"
  "calls (snd (mirror_Update e m w)) = calls w @ [UpdateMirror (mirror_Namespace m) (mirror_Name m)]"
  by (simp_all add: mirror_Update_def logged_def Let_def split: option.splits)

lemma mirror_Update_found:
  assumes "fst (mirror_Update e m w) = None" and "IsZero (mirror_DeletionTimestamp m)"
  shows "\<exists>old. mirror_lookup (mirrors (snd (mirror_Update e m w))) (mirror_Namespace m) (mirror_Name m) = Some old"
proof -
  let ?f = "\<lambda>x. if mirror_at (mirror_Namespace m) (mirror_Name m) x then m\<lparr>Status := Status x\<rparr> else x"
  have "mirror_lookup (map ?f (mirrors w)) (mirror_Namespace m) (mirror_Name m)
      = map_option ?f (mirror_lookup (mirrors w) (mirror_Namespace m) (mirror_Name m))"
    unfolding mirror_lookup_def by (rule find_map_pres) (simp add: mirror_at_def)
  with assms show ?thesis
    by (auto simp: mirror_Update_def logged_def Let_def split: option.splits if_splits)
qed

lemma Reconcile_replicating:
  assumes get: "mirror_Get e w req = Inr m"
    and active: "IsZero (mirror_DeletionTimestamp m)"
    and fin: "ContainsFinalizer m finalizerName
        \<or> fst (mirror_Update e (AddFinalizer m finalizerName) w) = None"
  obtains m' w0 old where "Reconcile e req w = reconcile_active e m' w0"
    and "configmaps w0 = configmaps w"
    and "mirror_lookup (mirrors w0) (mirror_Namespace m) (mirror_Name m) = Some old"
    and "mirror_Namespace m' = mirror_Namespace m" and "mirror_Name m' = mirror_Name m"
    and "Spec m' = Spec m" and "Status m' = Status m"
proof (cases "ContainsFinalizer m finalizerName")
  case True
  from mirror_Get_Inr [OF get]
  have look: "mirror_lookup (mirrors w) (mirror_Namespace m) (mirror_Name m) = Some m"
    by simp
  have run: "Reconcile e req w = reconcile_active e m w"
    using get active True by (simp add: Reconcile_def)
  show ?thesis
    by (rule that [OF run refl look]) simp_all
next
  case False
  let ?m = "AddFinalizer m finalizerName"
  let ?w = "snd (mirror_Update e ?m w)"
  from False fin have ok: "fst (mirror_Update e ?m w) = None" by simp
  have fields: "mirror_Namespace ?m = mirror_Namespace m" "mirror_Name ?m = mirror_Name m"
    "mirror_DeletionTimestamp ?m = mirror_DeletionTimestamp m" "Spec ?m = Spec m"
    "Status ?m = Status m"
    by (simp_all add: AddFinalizer_def)
  have run: "Reconcile e req w = reconcile_active e ?m ?w"
    using get active False ok by (simp add: Reconcile_def case_prod_beta)
  from mirror_Update_found [OF ok] active
  obtain old where "mirror_lookup (mirrors ?w) (mirror_Namespace m) (mirror_Name m) = Some old"
    by (auto simp: fields)
  then show ?thesis
    by (rule that [OF run mirror_Update_frame(1)]) (simp_all add: fields)
qed

section \<open>The claims\<close>

text \<open>
  C1. The claim: the source objects of a pass are the ConfigMaps of the namespace named by
  \<^verbatim>\<open>spec.sourceNamespace\<close> that match the selector. The code lists the ConfigMirror's own
  namespace (line 104) and never reads \<^verbatim>\<open>spec.sourceNamespace\<close>. In the cluster of the
  README (the ConfigMirror in \<^verbatim>\<open>ops\<close>, \<^verbatim>\<open>sourceNamespace: app-source\<close>) the pass
  replicates the matching ConfigMap of \<^verbatim>\<open>ops\<close> and not \<^verbatim>\<open>app-config\<close> of
  \<^verbatim>\<open>app-source\<close>.
\<close>

theorem reconcile_lists_own_namespace_not_sourceNamespace:
  "map (\<lambda>c. (cm_Namespace c, cm_Name c))
     (configmaps (snd (Reconcile env_ok (''ops'', ''app-config-mirror'') world_ops))) =
     [(''app-source'', ''app-config''), (''ops'', ''ops-settings''),
      (''dev'', ''ops-settings''), (''prod'', ''ops-settings'')]
   \<and> map (\<lambda>m. st_ReplicatedConfigMaps (Status m))
       (mirrors (snd (Reconcile env_ok (''ops'', ''app-config-mirror'') world_ops))) =
     [[\<lparr>rcm_Name = ''ops-settings'', rcm_SourceNamespace = ''ops'',
        rcm_Targets = [''dev'', ''prod''], rcm_LastSyncTime = Some 100\<rparr>]]"
  by (simp add: world_ops_def scenario_defs run_defs)

text \<open>
  C10. When \<^verbatim>\<open>replicateConfigMap\<close> finds the target ConfigMap, the object it sends in its
  one update request has the source's data and binary data and the owner's marker; every
  other label, the annotations, the name, the namespace and the uid are those of the object
  found. When the update succeeds that object is the one stored, and no other ConfigMap of
  the store changes.
\<close>

theorem replicate_update_changes_only_payload_and_marker:
  assumes "client_Get e w targetNS (cm_Name source) = Inr existing"
  shows "\<exists>c. calls (snd (replicateConfigMap e source targetNS owner w)) = calls w @ [UpdateConfigMap c]
     \<and> cm_Data c = cm_Data source \<and> cm_BinaryData c = cm_BinaryData source
     \<and> cm_Labels c ownerLabel = Some (ownerLabelValue owner)
     \<and> (\<forall>k. k \<noteq> ownerLabel \<longrightarrow> cm_Labels c k = cm_Labels existing k)
     \<and> cm_Annotations c = cm_Annotations existing
     \<and> cm_Name c = cm_Name existing \<and> cm_Namespace c = cm_Namespace existing
     \<and> cm_UID c = cm_UID existing
     \<and> (fst (replicateConfigMap e source targetNS owner w) = None \<longrightarrow>
          cm_lookup (configmaps (snd (replicateConfigMap e source targetNS owner w)))
            targetNS (cm_Name source) = Some c)
     \<and> (\<forall>ns n. (ns, n) \<noteq> (targetNS, cm_Name source) \<longrightarrow>
          cm_lookup (configmaps (snd (replicateConfigMap e source targetNS owner w))) ns n
            = cm_lookup (configmaps w) ns n)"
proof -
  let ?c = "existing\<lparr>cm_Data := cm_Data source, cm_BinaryData := cm_BinaryData source,
                      cm_Labels := (cm_Labels existing)(ownerLabel \<mapsto> ownerLabelValue owner)\<rparr>"
  from assms have look: "cm_lookup (configmaps w) targetNS (cm_Name source) = Some existing"
    by (rule client_Get_Inr)
  then have at: "cm_Namespace existing = targetNS" "cm_Name existing = cm_Name source"
    by (auto dest: cm_lookup_Some_at)
  have run: "replicateConfigMap e source targetNS owner w = client_Update e ?c w"
    using assms by (simp add: replicateConfigMap_def index_def)
  have calls: "calls (snd (client_Update e ?c w)) = calls w @ [UpdateConfigMap ?c]"
    by (simp add: client_Update_def logged_def Let_def split: option.splits)
  have same: "fst (client_Update e ?c w) = None \<longrightarrow>
      cm_lookup (configmaps (snd (client_Update e ?c w))) targetNS (cm_Name source) = Some ?c"
    using look at
    by (auto simp: client_Update_def logged_def Let_def cm_lookup_update_same split: option.splits)
  have other: "\<forall>ns n. (ns, n) \<noteq> (targetNS, cm_Name source) \<longrightarrow>
      cm_lookup (configmaps (snd (client_Update e ?c w))) ns n = cm_lookup (configmaps w) ns n"
    using at
    by (auto simp: client_Update_def logged_def Let_def cm_lookup_update_other split: option.splits)
  show ?thesis
    unfolding run
    by (rule exI [of _ ?c]) (use calls same other at in simp)
qed

theorem replicate_update_changes_only_payload_and_marker_witness:
  "client_Get env_ok world_collision ''dev'' (cm_Name source_cm) = Inr foreign_cm
   \<and> (\<exists>c. calls (snd (replicateConfigMap env_ok source_cm ''dev'' (mirror_in ''app-source'') world_collision))
            = calls world_collision @ [UpdateConfigMap c]
        \<and> cm_Data c = cm_Data source_cm
        \<and> cm_Labels c ownerLabel = Some ''app-source.app-config-mirror''
        \<and> cm_Labels c ''team'' = Some ''payments''
        \<and> cm_Annotations c = cm_Annotations foreign_cm
        \<and> cm_UID c = ''dev/app-config'')"
proof -
  have get: "client_Get env_ok world_collision ''dev'' (cm_Name source_cm) = Inr foreign_cm"
    by (simp add: world_collision_def scenario_defs client_Get_def cm_lookup_def cm_at_def)
  have team: "''team'' \<noteq> ownerLabel"
    by (simp add: ownerLabel_def)
  have own: "ownerLabelValue (mirror_in ''app-source'') = ''app-source.app-config-mirror''"
    by (simp add: ownerLabelValue_def mirror_in_def)
  have uid: "cm_UID foreign_cm = ''dev/app-config''" "cm_Labels foreign_cm ''team'' = Some ''payments''"
    by (simp_all add: foreign_cm_def config_map_def)
  from replicate_update_changes_only_payload_and_marker [OF get, of "mirror_in ''app-source''"]
  obtain c where c: "calls (snd (replicateConfigMap env_ok source_cm ''dev'' (mirror_in ''app-source'') world_collision))
            = calls world_collision @ [UpdateConfigMap c]"
      "cm_Data c = cm_Data source_cm"
      "cm_Labels c ownerLabel = Some (ownerLabelValue (mirror_in ''app-source''))"
      "\<forall>k. k \<noteq> ownerLabel \<longrightarrow> cm_Labels c k = cm_Labels foreign_cm k"
      "cm_Annotations c = cm_Annotations foreign_cm"
      "cm_UID c = cm_UID foreign_cm"
    by blast
  from c(4) team have "cm_Labels c ''team'' = cm_Labels foreign_cm ''team''"
    by blast
  with c own uid get show ?thesis
    by auto
qed

text \<open>
  C2. The claim: a pass for an owner never creates over, updates or deletes a ConfigMap of a
  target namespace that lacks the ownership marker or carries another owner's, even when it
  is named like a matched source object. \<^verbatim>\<open>deleteReplicatedConfigMap\<close> checks the marker
  before it deletes (lines 232-237); \<^verbatim>\<open>replicateConfigMap\<close> does not check it before it
  updates (lines 210-217). In a cluster where \<^verbatim>\<open>dev\<close> holds an unmarked
  \<^verbatim>\<open>app-config\<close> and \<^verbatim>\<open>prod\<close> one marked by another owner, one pass overwrites the data
  of both and sets the marker of both to its own owner.
\<close>

theorem reconcile_overwrites_foreign_configmaps:
  "map (\<lambda>c. (cm_Namespace c, cm_Name c, cm_Data c ''config.yaml'', cm_Labels c ownerLabel))
     (configmaps world_collision) =
     [(''app-source'', ''app-config'', Some ''key: value'', None),
      (''dev'', ''app-config'', Some ''theirs'', None),
      (''prod'', ''app-config'', Some ''other'', Some ''other-ns.other-mirror'')]
   \<and> map (\<lambda>c. (cm_Namespace c, cm_Name c, cm_Data c ''config.yaml'', cm_Labels c ownerLabel))
     (configmaps (snd (Reconcile env_ok (''app-source'', ''app-config-mirror'') world_collision))) =
     [(''app-source'', ''app-config'', Some ''key: value'', None),
      (''dev'', ''app-config'', Some ''key: value'', Some ''app-source.app-config-mirror''),
      (''prod'', ''app-config'', Some ''key: value'', Some ''app-source.app-config-mirror'')]"
  by (simp add: world_collision_def scenario_defs run_defs)

text \<open>
  C3. The claim: when the cleanup of a ConfigMirror that is being deleted succeeds and the
  finalizer is removed, no derived ConfigMap with the owner's marker and no database record
  of the owner remain. \<^verbatim>\<open>cleanupConfigMaps\<close> (lines 240-260) deletes the marked ConfigMaps
  of the target namespaces and makes no database call. In the cluster below the pass
  succeeds, the ConfigMirror is gone, the copies are gone, the source is still there, and so
  is the owner's record in the table.
\<close>

theorem terminating_pass_leaves_database_record:
  "fst (Reconcile env_ok (''app-source'', ''app-config-mirror'') world_terminating) =
     (\<lparr>RequeueAfter = 0\<rparr>, None)
   \<and> mirrors (snd (Reconcile env_ok (''app-source'', ''app-config-mirror'') world_terminating)) = []
   \<and> map (\<lambda>c. (cm_Namespace c, cm_Name c))
       (configmaps (snd (Reconcile env_ok (''app-source'', ''app-config-mirror'') world_terminating)))
      = [(''app-source'', ''app-config'')]
   \<and> map (\<lambda>r. (row_name r, row_namespace r, row_configmirror_name r, row_configmirror_namespace r))
       (rows (snd (Reconcile env_ok (''app-source'', ''app-config-mirror'') world_terminating)))
      = [(''app-config'', ''app-source'', ''app-config-mirror'', ''app-source'')]"
  by (simp add: world_terminating_def derived_cm_def scenario_defs run_defs)

text \<open>
  C9. The cleanup of orphans (lines 146-163) sends nothing but deletions of ConfigMaps in
  the namespaces that \<^verbatim>\<open>spec.targetNamespaces\<close> lists now: the ConfigMaps of any other
  namespace are left as they are, among them a copy in a namespace that was removed from
  the targets. It never touches the ConfigMirror resources, and it leaves the table alone
  unless the database is enabled.
\<close>

theorem orphan_cleanup_confined_to_current_targets:
  "(t \<notin> set (TargetNamespaces (Spec configMirror)) \<longrightarrow>
      filter (\<lambda>c. cm_Namespace c = t) (configmaps (cleanup_orphans e configMirror current prev w)) =
      filter (\<lambda>c. cm_Namespace c = t) (configmaps w))
   \<and> (\<exists>new. calls (cleanup_orphans e configMirror current prev w) = calls w @ new
         \<and> list_all (deletes_in (TargetNamespaces (Spec configMirror))) new)
   \<and> (\<not> database_enabled e configMirror \<longrightarrow> rows (cleanup_orphans e configMirror current prev w) = rows w)
   \<and> mirrors (cleanup_orphans e configMirror current prev w) = mirrors w"
proof (induction prev arbitrary: w)
  case Nil
  then show ?case by simp
next
  case (Cons p prev)
  show ?case
  proof (cases "rcm_Name p \<in> set current")
    case True
    then show ?thesis using Cons.IH [of w] by simp
  next
    case False
    let ?w1 = "delete_from_targets e (rcm_Name p) configMirror (TargetNamespaces (Spec configMirror)) w"
    let ?w2 = "if database_enabled e configMirror
               then snd (DeleteConfigMapRow e (rcm_Name p) (rcm_SourceNamespace p)
                           (mirror_Name configMirror) (mirror_Namespace configMirror) ?w1)
               else ?w1"
    have step: "cleanup_orphans e configMirror current (p # prev) w =
        cleanup_orphans e configMirror current prev ?w2"
      using False by (simp add: Let_def)
    obtain new1 where n1: "calls ?w1 = calls w @ new1"
        "list_all (deletes_in (TargetNamespaces (Spec configMirror))) new1"
      using delete_from_targets_calls by blast
    have w2: "configmaps ?w2 = configmaps ?w1" "calls ?w2 = calls ?w1" "mirrors ?w2 = mirrors ?w1"
      "\<not> database_enabled e configMirror \<longrightarrow> rows ?w2 = rows ?w1"
      by (simp_all add: DeleteConfigMapRow_frame)
    obtain new2 where n2: "calls (cleanup_orphans e configMirror current prev ?w2) = calls ?w2 @ new2"
        "list_all (deletes_in (TargetNamespaces (Spec configMirror))) new2"
      using Cons.IH [of ?w2] by blast
    have calls: "\<exists>new. calls (cleanup_orphans e configMirror current prev ?w2) = calls w @ new
         \<and> list_all (deletes_in (TargetNamespaces (Spec configMirror))) new"
      using n1 n2 w2(2) by (intro exI [of _ "new1 @ new2"]) simp
    show ?thesis
      unfolding step
      using Cons.IH [of ?w2] calls w2
      by (auto simp: delete_from_targets_frame delete_from_targets_rest)
  qed
qed

theorem orphan_cleanup_confined_to_current_targets_witness:
  "''prod'' \<notin> set (TargetNamespaces (Spec mirror_dev_only))
   \<and> filter (\<lambda>c. cm_Namespace c = ''prod'')
       (configmaps (cleanup_orphans env_ok mirror_dev_only []
          (st_ReplicatedConfigMaps (Status mirror_dev_only)) world_shrunk))
     = [derived_cm ''prod'' ''old-config'' ''old'']
   \<and> map (\<lambda>c. (cm_Namespace c, cm_Name c))
       (configmaps (cleanup_orphans env_ok mirror_dev_only []
          (st_ReplicatedConfigMaps (Status mirror_dev_only)) world_shrunk))
     = [(''prod'', ''old-config'')]"
proof -
  have prod: "''prod'' \<notin> set (TargetNamespaces (Spec mirror_dev_only))"
    by (simp add: mirror_dev_only_def mirror_in_def)
  have before: "filter (\<lambda>c. cm_Namespace c = ''prod'') (configmaps world_shrunk)
      = [derived_cm ''prod'' ''old-config'' ''old'']"
    by (simp add: world_shrunk_def derived_cm_def config_map_def)
  have run: "map (\<lambda>c. (cm_Namespace c, cm_Name c))
       (configmaps (cleanup_orphans env_ok mirror_dev_only []
          (st_ReplicatedConfigMaps (Status mirror_dev_only)) world_shrunk))
     = [(''prod'', ''old-config'')]"
    by (simp add: world_shrunk_def mirror_dev_only_def derived_cm_def scenario_defs run_defs)
  from orphan_cleanup_confined_to_current_targets
    [of "''prod''" mirror_dev_only env_ok "[]" "st_ReplicatedConfigMaps (Status mirror_dev_only)" world_shrunk]
    prod before run
  show ?thesis by simp
qed

text \<open>
  C4. The claim: a status write that meets a version conflict is retried by fetching the
  resource again and applying the change again, a bounded number of times, with a transient
  error when the attempts run out; it is never dropped in silence. \<^verbatim>\<open>updateStatus\<close>
  (lines 262-274) sends one request and discards its error. With every status write in
  conflict, the pass below sends exactly one status write, returns the periodic requeue with
  no error, and the stored status is the old one (the same pass without the conflict records
  \<^verbatim>\<open>app-config\<close>).
\<close>

theorem status_write_conflict_is_dropped:
  "cr_fault env_conflict VUpdateStatus = Some Conflict
   \<and> fst (Reconcile env_conflict (''app-source'', ''app-config-mirror'') world_plain) =
       (\<lparr>RequeueAfter = 300000000000\<rparr>, None)
   \<and> filter is_status_write (calls (snd (Reconcile env_conflict (''app-source'', ''app-config-mirror'') world_plain)))
       = [UpdateMirrorStatus ''app-source'' ''app-config-mirror'']
   \<and> map Status (mirrors (snd (Reconcile env_conflict (''app-source'', ''app-config-mirror'') world_plain)))
       = [empty_status]
   \<and> map (\<lambda>m. map rcm_Name (st_ReplicatedConfigMaps (Status m)))
        (mirrors (snd (Reconcile env_ok (''app-source'', ''app-config-mirror'') world_plain)))
       = [[''app-config'']]"
  by (simp add: env_conflict_def with_status_fault_def is_status_write_def world_plain_def scenario_defs run_defs)

text \<open>
  C4, as the code has it: a status write that meets a conflict, or fails with any other
  error, is sent once and not sent again, and its error is discarded. The pass returns what it returns when the write
  succeeds, with the same ConfigMaps, the same table and the same requests to the object
  store; it sends at most one status write; and the status of every stored ConfigMirror is
  the one stored before the pass.
\<close>

theorem status_write_error_is_discarded:
  assumes "cr_fault e VUpdateStatus = Some err"
  shows "fst (Reconcile e req w) = fst (Reconcile (with_status_fault e None) req w)
   \<and> configmaps (snd (Reconcile e req w)) = configmaps (snd (Reconcile (with_status_fault e None) req w))
   \<and> rows (snd (Reconcile e req w)) = rows (snd (Reconcile (with_status_fault e None) req w))
   \<and> calls (snd (Reconcile e req w)) = calls (snd (Reconcile (with_status_fault e None) req w))
   \<and> status_writes (snd (Reconcile e req w)) \<le> Suc (status_writes w)
   \<and> (\<forall>ns n m'. mirror_lookup (mirrors (snd (Reconcile e req w))) ns n = Some m' \<longrightarrow>
         (\<exists>m. mirror_lookup (mirrors w) ns n = Some m \<and> Status m' = Status m))"
proof -
  have "(cr_fault e)(VUpdateStatus := Some err) = cr_fault e"
    using assms by (simp add: fun_upd_idem)
  then have e: "with_status_fault e (Some err) = e"
    by (simp add: with_status_fault_def)
  show ?thesis
    using Reconcile_status_fault [of e "Some err" req w None]
      status_writes_Reconcile [of e req w] Reconcile_conflict_statuses [OF assms, of req w]
    unfolding e by blast
qed

theorem status_write_error_is_discarded_witness:
  "cr_fault env_conflict VUpdateStatus = Some Conflict
   \<and> fst (Reconcile env_conflict (''app-source'', ''app-config-mirror'') world_plain)
       = fst (Reconcile (with_status_fault env_conflict None) (''app-source'', ''app-config-mirror'') world_plain)
   \<and> calls (snd (Reconcile env_conflict (''app-source'', ''app-config-mirror'') world_plain))
       = calls (snd (Reconcile (with_status_fault env_conflict None) (''app-source'', ''app-config-mirror'') world_plain))
   \<and> status_writes (snd (Reconcile env_conflict (''app-source'', ''app-config-mirror'') world_plain))
       \<le> Suc (status_writes world_plain)"
proof -
  have conflict: "cr_fault env_conflict VUpdateStatus = Some Conflict"
    by (simp add: env_conflict_def with_status_fault_def)
  from status_write_error_is_discarded [OF conflict, of "(''app-source'', ''app-config-mirror'')" world_plain]
    conflict
  show ?thesis by blast
qed

text \<open>
  C8. Whatever the database calls of a pass return (\<open>f\<close> is any assignment of failures to
  the save, delete and ping calls), the pass returns the same result and error, performs the
  same requests on the object store in the same order, and leaves the same ConfigMaps; the
  stored ConfigMirror resources differ at most in \<^verbatim>\<open>status.databaseStatus\<close>.
\<close>

theorem database_failures_leave_outcome_unchanged:
  "fst (Reconcile (e\<lparr>db_fault := f\<rparr>) req w) = fst (Reconcile e req w)
   \<and> configmaps (snd (Reconcile (e\<lparr>db_fault := f\<rparr>) req w)) = configmaps (snd (Reconcile e req w))
   \<and> calls (snd (Reconcile (e\<lparr>db_fault := f\<rparr>) req w)) = calls (snd (Reconcile e req w))
   \<and> map sans_database_status (mirrors (snd (Reconcile (e\<lparr>db_fault := f\<rparr>) req w)))
       = map sans_database_status (mirrors (snd (Reconcile e req w)))"
proof -
  have ra: "fst (reconcile_active (e\<lparr>db_fault := f\<rparr>) m w') = fst (reconcile_active e m w')"
    "configmaps (snd (reconcile_active (e\<lparr>db_fault := f\<rparr>) m w')) = configmaps (snd (reconcile_active e m w'))"
    "calls (snd (reconcile_active (e\<lparr>db_fault := f\<rparr>) m w')) = calls (snd (reconcile_active e m w'))"
    "map sans_database_status (mirrors (snd (reconcile_active (e\<lparr>db_fault := f\<rparr>) m w')))
       = map sans_database_status (mirrors (snd (reconcile_active e m w')))" for m w'
    using reconcile_active_db [where e = e and f = f and m = m and w = w'] by simp_all
  show ?thesis
    by (simp add: Reconcile_def ra case_prod_beta split: sum.splits option.splits)
qed

theorem database_failures_leave_outcome_unchanged_witness:
  "fst (Reconcile (env_ok\<lparr>db_fault := database_down\<rparr>) (''app-source'', ''app-config-mirror'') world_plain)
     = (\<lparr>RequeueAfter = 300000000000\<rparr>, None)
   \<and> map (\<lambda>c. (cm_Namespace c, cm_Name c))
       (configmaps (snd (Reconcile (env_ok\<lparr>db_fault := database_down\<rparr>)
          (''app-source'', ''app-config-mirror'') world_plain)))
     = [(''app-source'', ''app-config''), (''dev'', ''app-config''), (''prod'', ''app-config'')]"
proof -
  have ok: "fst (Reconcile env_ok (''app-source'', ''app-config-mirror'') world_plain)
     = (\<lparr>RequeueAfter = 300000000000\<rparr>, None)"
    "map (\<lambda>c. (cm_Namespace c, cm_Name c))
       (configmaps (snd (Reconcile env_ok (''app-source'', ''app-config-mirror'') world_plain)))
     = [(''app-source'', ''app-config''), (''dev'', ''app-config''), (''prod'', ''app-config'')]"
    by (simp_all add: world_plain_def scenario_defs run_defs)
  from database_failures_leave_outcome_unchanged
    [where e = env_ok and f = database_down and req = "(''app-source'', ''app-config-mirror'')"
      and w = world_plain] ok
  show ?thesis by simp
qed

text \<open>
  C6. In a pass of an active ConfigMirror that reaches the cleanup of orphans (the selector
  compiles and the listing succeeds), for every entry of the stored
  \<^verbatim>\<open>status.replicatedConfigMaps\<close> whose name is not among the listed source objects and
  every target namespace \<open>t\<close> in which the get and the delete of that name do not fail:
  after the pass \<open>t\<close> holds no ConfigMap of that name with the owner's marker (a ConfigMap
  of that name without the marker is not deleted), and when the database is enabled and the
  delete call does not fail, the table holds no record of the owner for that name.
\<close>

theorem orphan_cleanup_removes_copies_and_record:
  assumes get: "mirror_Get e w req = Inr m"
    and active: "IsZero (mirror_DeletionTimestamp m)"
    and fin: "ContainsFinalizer m finalizerName"
    and sel: "LabelSelectorAsSelector e (Selector (Spec m)) = Inr p"
    and list: "client_List e w (mirror_Namespace m) p = Inr items"
    and prev: "prevCM \<in> set (st_ReplicatedConfigMaps (Status m))"
    and orphan: "rcm_Name prevCM \<notin> set (map cm_Name items)"
    and t: "t \<in> set (TargetNamespaces (Spec m))"
    and ok: "cm_fault e VGet t (rcm_Name prevCM) = None" "cm_fault e VDelete t (rcm_Name prevCM) = None"
  shows "no_owned_copy m (snd (Reconcile e req w)) t (rcm_Name prevCM)
    \<and> (database_enabled e m \<and> db_fault e DbDelete (rcm_Name prevCM) (rcm_SourceNamespace prevCM) = None
         \<longrightarrow> no_record (snd (Reconcile e req w)) (rcm_Name prevCM) (rcm_SourceNamespace prevCM) m)"
proof -
  let ?w1 = "snd (replicate_all e m items [] w)"
  let ?w2 = "cleanup_orphans e m (map cm_Name items) (st_ReplicatedConfigMaps (Status m)) ?w1"
  have run: "configmaps (snd (Reconcile e req w)) = configmaps ?w2" "rows (snd (Reconcile e req w)) = rows ?w2"
    using get active fin sel list
    by (simp_all add: Reconcile_def reconcile_active_def case_prod_beta Let_def updateStatus_frame)
  have a: "no_owned_copy m ?w2 t (rcm_Name prevCM)"
    using ok t orphan prev by (rule cleanup_orphans_removes)
  have b: "no_record ?w2 (rcm_Name prevCM) (rcm_SourceNamespace prevCM) m"
    if "database_enabled e m" "db_fault e DbDelete (rcm_Name prevCM) (rcm_SourceNamespace prevCM) = None"
    using that orphan prev by (rule cleanup_orphans_removes_record)
  show ?thesis
    using a b by (simp add: no_owned_copy_configmaps [OF run(1)] no_record_rows [OF run(2)])
qed

theorem orphan_cleanup_removes_copies_and_record_witness:
  "mirror_Get env_ok world_orphan (''app-source'', ''app-config-mirror'') = Inr mirror_tracking_old
   \<and> LabelSelectorAsSelector env_ok (Selector (Spec mirror_tracking_old)) = Inr app_predicate
   \<and> client_List env_ok world_orphan (mirror_Namespace mirror_tracking_old) app_predicate = Inr [source_cm]
   \<and> old_entry \<in> set (st_ReplicatedConfigMaps (Status mirror_tracking_old))
   \<and> rcm_Name old_entry \<notin> set (map cm_Name [source_cm])
   \<and> ''dev'' \<in> set (TargetNamespaces (Spec mirror_tracking_old))
   \<and> database_enabled env_ok mirror_tracking_old
   \<and> no_owned_copy mirror_tracking_old
        (snd (Reconcile env_ok (''app-source'', ''app-config-mirror'') world_orphan)) ''dev'' ''old-config''
   \<and> no_record (snd (Reconcile env_ok (''app-source'', ''app-config-mirror'') world_orphan))
        ''old-config'' ''app-source'' mirror_tracking_old"
proof -
  have get: "mirror_Get env_ok world_orphan (''app-source'', ''app-config-mirror'') = Inr mirror_tracking_old"
    by (simp add: mirror_Get_def mirror_lookup_def mirror_at_def world_orphan_def mirror_tracking_old_def
        env_ok_def mirror_in_def)
  have active: "IsZero (mirror_DeletionTimestamp mirror_tracking_old)"
    and fin: "ContainsFinalizer mirror_tracking_old finalizerName"
    and t: "''dev'' \<in> set (TargetNamespaces (Spec mirror_tracking_old))"
    and prev: "old_entry \<in> set (st_ReplicatedConfigMaps (Status mirror_tracking_old))"
    and db: "database_enabled env_ok mirror_tracking_old"
    by (simp_all add: IsZero_def ContainsFinalizer_def mirror_tracking_old_def mirror_in_def
        empty_status_def database_enabled_def env_ok_def)
  have sel: "LabelSelectorAsSelector env_ok (Selector (Spec mirror_tracking_old)) = Inr app_predicate"
    by (simp add: LabelSelectorAsSelector_def NewRequirement_def mirror_tracking_old_def mirror_in_def
        app_selector_def env_ok_def app_predicate_def fun_eq_iff)
  have list: "client_List env_ok world_orphan (mirror_Namespace mirror_tracking_old) app_predicate
      = Inr [source_cm]"
    by (simp add: client_List_def world_orphan_def mirror_tracking_old_def mirror_in_def env_ok_def
        app_predicate_def Matches_def source_cm_def derived_cm_def config_map_def ownerLabel_def)
  have orphan: "rcm_Name old_entry \<notin> set (map cm_Name [source_cm])"
    by (simp add: old_entry_def source_cm_def config_map_def)
  have ok: "cm_fault env_ok VGet ''dev'' (rcm_Name old_entry) = None"
    "cm_fault env_ok VDelete ''dev'' (rcm_Name old_entry) = None"
    "db_fault env_ok DbDelete (rcm_Name old_entry) (rcm_SourceNamespace old_entry) = None"
    by (simp_all add: env_ok_def)
  have names: "rcm_Name old_entry = ''old-config''" "rcm_SourceNamespace old_entry = ''app-source''"
    by (simp_all add: old_entry_def)
  from orphan_cleanup_removes_copies_and_record [OF get active fin sel list prev orphan t ok(1,2)]
    db ok(3) get sel list prev orphan t
  show ?thesis
    by (simp add: names)
qed

text \<open>
  C7. In a pass of a ConfigMirror that is not being deleted (the finalizer is present, or the
  pass adds it), whose selector compiles and whose listing succeeds, whatever calls fail
  during replication: the pass returns the periodic requeue and no error; the entry recorded
  for every listed source object lists exactly the target namespaces to which its
  replication succeeds, in the order of the spec, the failed ones left out; when the status
  write succeeds these entries are the stored \<^verbatim>\<open>status.replicatedConfigMaps\<close>; and every
  target namespace listed in an entry was written: after the pass the store holds there a
  ConfigMap with the name and the data of the source object and the owner's marker, and the
  log holds the create or update request that wrote it. The target namespaces are distinct
  and the store holds one ConfigMap per namespace and name, so that the success of a
  replication is that of \<^verbatim>\<open>replicateConfigMap\<close> in the world the pass starts from.
\<close>

theorem failed_target_is_omitted_and_pass_continues:
  assumes get: "mirror_Get e w req = Inr m"
    and active: "IsZero (mirror_DeletionTimestamp m)"
    and fin: "ContainsFinalizer m finalizerName
        \<or> fst (mirror_Update e (AddFinalizer m finalizerName) w) = None"
    and sel: "LabelSelectorAsSelector e (Selector (Spec m)) = Inr p"
    and list: "client_List e w (mirror_Namespace m) p = Inr items"
    and targets: "distinct (TargetNamespaces (Spec m))"
    and store: "distinct (map cm_key (configmaps w))"
  shows "fst (Reconcile e req w) = (\<lparr>RequeueAfter = 300000000000\<rparr>, None)
    \<and> fst (replicate_all e m items [] w) = map (recorded_entry e m w) items
    \<and> (cr_fault e VUpdateStatus = None \<longrightarrow>
         map_option (\<lambda>x. st_ReplicatedConfigMaps (Status x))
           (mirror_lookup (mirrors (snd (Reconcile e req w))) (fst req) (snd req))
         = Some (map (recorded_entry e m w) items))
    \<and> list_all (\<lambda>cm. list_all (copied (ownerLabelValue m) (snd (Reconcile e req w)) cm)
          (rcm_Targets (recorded_entry e m w cm))) items"
proof -
  from get active fin obtain m' w0 old
    where run0: "Reconcile e req w = reconcile_active e m' w0"
      and cms0: "configmaps w0 = configmaps w"
      and look0: "mirror_lookup (mirrors w0) (mirror_Namespace m) (mirror_Name m) = Some old"
      and ns: "mirror_Namespace m' = mirror_Namespace m" and nm: "mirror_Name m' = mirror_Name m"
      and spec: "Spec m' = Spec m" and status: "Status m' = Status m"
    by (rule Reconcile_replicating)
  have owner: "ownerLabelValue m' = ownerLabelValue m"
    by (simp add: ownerLabelValue_def ns nm)
  let ?R = "fst (replicate_all e m' items [] w0)"
  let ?w1 = "snd (replicate_all e m' items [] w0)"
  let ?w2 = "cleanup_orphans e m' (map cm_Name items) (st_ReplicatedConfigMaps (Status m')) ?w1"
  let ?m = "probe_database e (m'\<lparr>Status := (Status m')\<lparr>st_ReplicatedConfigMaps := ?R,
               st_ObservedGeneration := mirror_Generation m'\<rparr>\<rparr>)"
  have list0: "client_List e w0 (mirror_Namespace m') p = Inr items"
    using list by (simp add: client_List_def cms0 ns cong: option.case_cong)
  have run: "Reconcile e req w = ((\<lparr>RequeueAfter = 300000000000\<rparr>, None),
      updateStatus e ?m ConditionTrue ''ReconcileSuccess'' ''Successfully replicated ConfigMaps'' ?w2)"
    unfolding run0 using sel list0
    by (simp add: reconcile_active_def case_prod_beta Let_def spec)
  have names: "distinct (map cm_Name items)"
    using store list by (rule client_List_distinct)
  have ent0: "recorded_entry e m' w0 cm = recorded_entry e m w cm" for cm
  proof -
    have "fst (replicateConfigMap e cm t m' w0) = fst (replicateConfigMap e cm t m w)" for t
      unfolding replicateConfigMap_owner [OF owner]
      by (rule replicateConfigMap_depends) (simp add: cms0)
    then show ?thesis
      by (simp add: recorded_entry_def spec)
  qed
  have entries: "?R = map (recorded_entry e m w) items"
    using replicate_all_entries [OF names, where m = m' and e = e and acc = "[]" and w = w0] targets
    by (simp add: spec ent0)
  have entries': "fst (replicate_all e m items [] w) = map (recorded_entry e m w) items"
    using replicate_all_entries [OF names targets, where e = e and acc = "[]" and w = w]
    by simp
  have key: "mirror_Namespace ?m = mirror_Namespace m" "mirror_Name ?m = mirror_Name m"
    "st_ReplicatedConfigMaps (Status ?m) = ?R"
    by (simp_all add: probe_database_def ns nm split: option.splits)
  from mirror_Get_Inr [OF get]
  have req: "req = (mirror_Namespace m, mirror_Name m)"
    by simp
  have look: "mirror_lookup (mirrors ?w2) (mirror_Namespace ?m) (mirror_Name ?m) = Some old"
    using look0 by (simp add: key cleanup_orphans_mirrors replicate_all_mirrors)
  have "map_option (\<lambda>x. st_ReplicatedConfigMaps (Status x))
           (mirror_lookup (mirrors (snd (Reconcile e req w))) (fst req) (snd req)) = Some ?R"
    if "cr_fault e VUpdateStatus = None"
    using updateStatus_stored [OF that look, where s = ConditionTrue and r = "''ReconcileSuccess''"
        and msg = "''Successfully replicated ConfigMaps''"]
    unfolding run by (simp add: key req)
  then have stored: "map_option (\<lambda>x. st_ReplicatedConfigMaps (Status x))
           (mirror_lookup (mirrors (snd (Reconcile e req w))) (fst req) (snd req))
         = Some (map (recorded_entry e m w) items)"
    if "cr_fault e VUpdateStatus = None"
    using that unfolding entries by simp
  have copies: "copied (ownerLabelValue m) (snd (Reconcile e req w)) cm t"
    if cm: "cm \<in> set items" and t: "t \<in> set (rcm_Targets (recorded_entry e m w cm))" for cm t
  proof -
    from targets have "distinct (TargetNamespaces (Spec m'))"
      by (simp add: spec)
    moreover from t have "t \<in> set (rcm_Targets (recorded_entry e m' w0 cm))"
      by (simp add: ent0)
    ultimately have "copied (ownerLabelValue m') ?w1 cm t"
      using names cm by (intro replicate_all_success)
    then have one: "copied (ownerLabelValue m) ?w1 cm t"
      by (simp add: owner)
    from cm have "cm_Name cm \<in> set (map cm_Name items)" by simp
    then have "cm_lookup (configmaps ?w2) t (cm_Name cm) = cm_lookup (configmaps ?w1) t (cm_Name cm)"
      by (rule cleanup_orphans_other)
    with one have two: "copied (ownerLabelValue m) ?w2 cm t"
      using cleanup_orphans_calls by (rule copied_mono)
    show ?thesis
      unfolding run using two by (rule copied_mono) (auto simp: updateStatus_frame)
  qed
  show ?thesis
    using run entries' stored copies by (simp add: list_all_iff)
qed

theorem failed_target_is_omitted_and_pass_continues_witness:
  "mirror_Get env_staging_down world_new (''app-source'', ''app-config-mirror'') = Inr mirror_new
   \<and> \<not> ContainsFinalizer mirror_new finalizerName
   \<and> fst (mirror_Update env_staging_down (AddFinalizer mirror_new finalizerName) world_new) = None
   \<and> LabelSelectorAsSelector env_staging_down (Selector (Spec mirror_new)) = Inr app_predicate
   \<and> client_List env_staging_down world_new (mirror_Namespace mirror_new) app_predicate = Inr [source_cm]
   \<and> distinct (TargetNamespaces (Spec mirror_new))
   \<and> distinct (map cm_key (configmaps world_new))
   \<and> fst (replicateConfigMap env_staging_down source_cm ''staging'' mirror_new world_new)
       = Some (ServerError ''forbidden'')
   \<and> fst (Reconcile env_staging_down (''app-source'', ''app-config-mirror'') world_new)
       = (\<lparr>RequeueAfter = 300000000000\<rparr>, None)
   \<and> map_option (\<lambda>x. st_ReplicatedConfigMaps (Status x))
        (mirror_lookup (mirrors (snd (Reconcile env_staging_down (''app-source'', ''app-config-mirror'') world_new)))
           ''app-source'' ''app-config-mirror'')
       = Some [\<lparr>rcm_Name = ''app-config'', rcm_SourceNamespace = ''app-source'',
                 rcm_Targets = [''dev'', ''prod''], rcm_LastSyncTime = Some 100\<rparr>]
   \<and> copied ''app-source.app-config-mirror''
        (snd (Reconcile env_staging_down (''app-source'', ''app-config-mirror'') world_new)) source_cm ''dev''
   \<and> copied ''app-source.app-config-mirror''
        (snd (Reconcile env_staging_down (''app-source'', ''app-config-mirror'') world_new)) source_cm ''prod''"
proof -
  let ?e = env_staging_down
  have get: "mirror_Get ?e world_new (''app-source'', ''app-config-mirror'') = Inr mirror_new"
    by (simp add: mirror_Get_def mirror_lookup_def mirror_at_def world_new_def env_staging_down_def
        env_ok_def mirror_new_def mirror_in_def)
  have active: "IsZero (mirror_DeletionTimestamp mirror_new)"
    and nofin: "\<not> ContainsFinalizer mirror_new finalizerName"
    and targets: "distinct (TargetNamespaces (Spec mirror_new))"
    by (simp_all add: IsZero_def ContainsFinalizer_def mirror_new_def mirror_in_def)
  have upd: "fst (mirror_Update ?e (AddFinalizer mirror_new finalizerName) world_new) = None"
    by (simp add: mirror_Update_def AddFinalizer_def mirror_lookup_def mirror_at_def logged_def
        IsZero_def world_new_def env_staging_down_def env_ok_def mirror_new_def mirror_in_def Let_def)
  have sel: "LabelSelectorAsSelector ?e (Selector (Spec mirror_new)) = Inr app_predicate"
    by (simp add: LabelSelectorAsSelector_def NewRequirement_def mirror_new_def mirror_in_def
        app_selector_def env_staging_down_def env_ok_def app_predicate_def fun_eq_iff)
  have list: "client_List ?e world_new (mirror_Namespace mirror_new) app_predicate = Inr [source_cm]"
    by (simp add: client_List_def world_new_def mirror_new_def mirror_in_def env_staging_down_def
        env_ok_def namespace_down_def app_predicate_def Matches_def source_cm_def config_map_def)
  have store: "distinct (map cm_key (configmaps world_new))"
    by (simp add: world_new_def)
  have staging: "fst (replicateConfigMap ?e source_cm ''staging'' mirror_new world_new)
      = Some (ServerError ''forbidden'')"
    by (simp add: replicateConfigMap_def client_Get_def env_staging_down_def namespace_down_def Let_def)
  have dev: "fst (replicateConfigMap ?e source_cm ''dev'' mirror_new world_new) = None"
    by (simp add: replicateConfigMap_def client_Get_def client_Create_def logged_def cm_lookup_def
        cm_at_def env_staging_down_def env_ok_def namespace_down_def world_new_def source_cm_def
        config_map_def Let_def)
  have prod: "fst (replicateConfigMap ?e source_cm ''prod'' mirror_new world_new) = None"
    by (simp add: replicateConfigMap_def client_Get_def client_Create_def logged_def cm_lookup_def
        cm_at_def env_staging_down_def env_ok_def namespace_down_def world_new_def source_cm_def
        config_map_def Let_def)
  have entry: "recorded_entry ?e mirror_new world_new source_cm
      = \<lparr>rcm_Name = ''app-config'', rcm_SourceNamespace = ''app-source'',
           rcm_Targets = [''dev'', ''prod''], rcm_LastSyncTime = Some 100\<rparr>"
  proof -
    have "TargetNamespaces (Spec mirror_new) = [''dev'', ''staging'', ''prod'']" "now ?e = 100"
      "cm_Name source_cm = ''app-config''" "cm_Namespace source_cm = ''app-source''"
      by (simp_all add: mirror_new_def mirror_in_def source_cm_def config_map_def
          env_staging_down_def env_ok_def)
    then show ?thesis
      by (simp add: recorded_entry_def staging dev prod)
  qed
  have owner: "ownerLabelValue mirror_new = ''app-source.app-config-mirror''"
    by (simp add: ownerLabelValue_def mirror_new_def mirror_in_def)
  have status: "cr_fault ?e VUpdateStatus = None"
    by (simp add: env_staging_down_def env_ok_def)
  from failed_target_is_omitted_and_pass_continues [OF get active disjI2 [OF upd] sel list targets store]
    status entry owner get nofin upd sel list targets store staging
  show ?thesis by simp
qed

text \<open>
  C5. The claim: for any source ConfigMaps and any spec, two consecutive passes with no
  change in between leave the same derived objects, the same rows and the same list of
  replicated ConfigMaps. The ConfigMirror below lists its own namespace as its only target
  and selects the ConfigMaps without the ownership marker. The first pass finds the source
  \<^verbatim>\<open>app-config\<close> itself under the key of its copy and writes the marker on it
  (\<^verbatim>\<open>replicateConfigMap\<close> updates what it finds without reading the marker, lines 201-217),
  and records it. In the second pass, with nothing changed in between, the object no longer
  matches the selector, so it is an orphan of the status, it carries the marker, and
  \<^verbatim>\<open>deleteReplicatedConfigMap\<close> deletes it: both passes succeed, the store is empty and so
  is the list. The testing guide says of the source object that it should still exist.
\<close>

theorem second_pass_deletes_self_targeted_source:
  "map (\<lambda>c. (cm_key c, cm_UID c, cm_Labels c ownerLabel)) (configmaps world_self)
     = [((''app-source'', ''app-config''), ''app-source/app-config'', None)]
   \<and> fst (Reconcile env_ok (''app-source'', ''app-config-mirror'') world_self)
     = (\<lparr>RequeueAfter = 300000000000\<rparr>, None)
   \<and> map (\<lambda>c. (cm_key c, cm_UID c, cm_Labels c ownerLabel))
       (configmaps (snd (Reconcile env_ok (''app-source'', ''app-config-mirror'') world_self)))
     = [((''app-source'', ''app-config''), ''app-source/app-config'', Some ''app-source.app-config-mirror'')]
   \<and> map (\<lambda>m. map rcm_Name (st_ReplicatedConfigMaps (Status m)))
       (mirrors (snd (Reconcile env_ok (''app-source'', ''app-config-mirror'') world_self)))
     = [[''app-config'']]
   \<and> fst (Reconcile env_ok (''app-source'', ''app-config-mirror'')
        (snd (Reconcile env_ok (''app-source'', ''app-config-mirror'') world_self)))
     = (\<lparr>RequeueAfter = 300000000000\<rparr>, None)
   \<and> configmaps (snd (Reconcile env_ok (''app-source'', ''app-config-mirror'')
        (snd (Reconcile env_ok (''app-source'', ''app-config-mirror'') world_self))))
     = []
   \<and> map (\<lambda>m. map rcm_Name (st_ReplicatedConfigMaps (Status m)))
       (mirrors (snd (Reconcile env_ok (''app-source'', ''app-config-mirror'')
        (snd (Reconcile env_ok (''app-source'', ''app-config-mirror'') world_self)))))
     = [[]]
   \<and> filter (deletes_in [''app-source''])
       (calls (snd (Reconcile env_ok (''app-source'', ''app-config-mirror'')
        (snd (Reconcile env_ok (''app-source'', ''app-config-mirror'') world_self)))))
     = [DeleteConfigMap ''app-source'' ''app-config'']"
  by (simp add: world_self_def mirror_self_def self_selector_def cm_key_def deletes_in_def
      scenario_defs run_defs)

end
